theory Spec2Isabelle
  imports Main "HOL-Library.AList"
begin

section \<open>Symbol-table build pass of the Jac compiler (sym\_tab\_build\_pass.py)\<close>

text \<open>
  The pass \<open>SymTabBuildPass\<close> walks a module AST depth first. Its only state is the
  list \<open>cur_sym_tab\<close> of active \<open>SymbolTable\<close> objects (the top is the last element),
  the tables themselves (mutable objects shared by reference between the stack and the
  \<open>sym_tab\<close> attribute of AST nodes) and the diagnostics recorded by \<open>self.error\<close>.
  Tables live in an explicit store; an address is an index into it.
\<close>

subsection \<open>Data model\<close>

type_synonym addr = nat

text \<open>Python exceptions the handlers can raise: \<open>[].pop()\<close> and \<open>xs[-1]\<close> on an empty list.\<close>

datatype py_error = IndexError

text \<open>
  What the pass reads of an \<open>AstNode\<close> object once it sits in a symbol record: its identity,
  its \<open>line\<close>, and \<open>mod_link.rel_mod_path\<close> (\<open>None\<close> when the node has no \<open>mod_link\<close>).
\<close>

record ast_node =
  nid :: nat
  line :: int
  mod_link :: "string option"

datatype symbol_hit_type = DECL | DEFN

text \<open>\<open>Symbol\<close>: the record behind one name (\<open>decl\<close>, \<open>defn\<close>).\<close>

record symbol =
  decl :: "ast_node option"
  defn :: "ast_node list"

text \<open>\<open>SymbolTable\<close>: \<open>tab\<close> is an insertion-ordered dict, \<open>parent\<close> the enclosing table.\<close>

record symbol_table =
  tab :: "(string \<times> symbol) list"
  parent :: "addr option"

text \<open>A recorded diagnostic: a message given to \<open>self.error\<close>, or an internal compiler error.\<close>

datatype diagnostic = Error string | ICE

record pass_state =
  cur_sym_tab :: "addr list"
  store :: "symbol_table list"
  node_sym_tab :: "nat \<rightharpoonup> addr"
  errors :: "diagnostic list"

text \<open>Sequencing of fallible steps: an exception ends the handler.\<close>

definition bind_r :: "py_error + 'a \<Rightarrow> ('a \<Rightarrow> py_error + 'b) \<Rightarrow> py_error + 'b" where
  "bind_r r f = (case r of Inl e \<Rightarrow> Inl e | Inr x \<Rightarrow> f x)"

subsection \<open>The symbol table (jaclang.jac.symtable)\<close>

text \<open>
  Modelled from the spec: the class \<open>SymbolTable\<close> (its constructor, \<open>insert\<close> and
  \<open>push_scope\<close>) is imported from \<open>jaclang.jac.symtable\<close>, which is not among the sources.
  Section 4.2 of the specification gives \<open>insert\<close>: an absent name gets a new record with the
  declaration slot filled (DECL) or the node appended to the definitions (DEFN) and there is
  no conflict; a present name under \<open>single\<close> returns the existing occupant (the declaration
  if set, else the most recent definition) and leaves the record alone; a present name without
  \<open>single\<close> fills or appends the requested slot unchecked.
\<close>

definition occupant :: "symbol \<Rightarrow> ast_node option" where
  "occupant r =
     (case decl r of
        Some d \<Rightarrow> Some d
      | None \<Rightarrow> (if defn r = [] then None else Some (last (defn r))))"

definition new_symbol :: "symbol_hit_type \<Rightarrow> ast_node \<Rightarrow> symbol" where
  "new_symbol hit node =
     (case hit of
        DECL \<Rightarrow> \<lparr>decl = Some node, defn = []\<rparr>
      | DEFN \<Rightarrow> \<lparr>decl = None, defn = [node]\<rparr>)"

definition add_hit :: "symbol \<Rightarrow> symbol_hit_type \<Rightarrow> ast_node \<Rightarrow> symbol" where
  "add_hit r hit node =
     (case hit of
        DECL \<Rightarrow> r\<lparr>decl := Some node\<rparr>
      | DEFN \<Rightarrow> r\<lparr>defn := defn r @ [node]\<rparr>)"

definition insert_sym ::
  "symbol_table \<Rightarrow> string \<Rightarrow> symbol_hit_type \<Rightarrow> ast_node \<Rightarrow> bool
     \<Rightarrow> ast_node option \<times> symbol_table" where
  "insert_sym t name sym_hit node single =
     (case map_of (tab t) name of
        None \<Rightarrow> (None, t\<lparr>tab := tab t @ [(name, new_symbol sym_hit node)]\<rparr>)
      | Some r \<Rightarrow>
          if single then (occupant r, t)
          else (None, t\<lparr>tab := AList.update name (add_hit r sym_hit node) (tab t)\<rparr>))"

text \<open>
  Modelled from the spec: \<open>SymbolTable()\<close> is a table without entries and without parent
  (section 4.1, push\_fresh); \<open>SymbolTable.push_scope\<close> returns a new empty table whose parent is
  the receiver (section 4.1, push\_nested).
\<close>

definition SymbolTable :: symbol_table where
  "SymbolTable = \<lparr>tab = [], parent = None\<rparr>"

definition nested_table :: "addr \<Rightarrow> symbol_table" where
  "nested_table p = \<lparr>tab = [], parent = Some p\<rparr>"

subsection \<open>Scope stack operations (lines 12 to 33)\<close>

text \<open>An object created while the pass runs gets the next free address of the store.\<close>

definition before_pass :: "pass_state \<Rightarrow> pass_state" where
  "before_pass s =
     s\<lparr>cur_sym_tab := [length (store s)], store := store s @ [SymbolTable]\<rparr>"

definition push_scope :: "bool \<Rightarrow> pass_state \<Rightarrow> py_error + pass_state" where
  "push_scope fresh s =
     (if fresh then
        Inr (s\<lparr>cur_sym_tab := cur_sym_tab s @ [length (store s)],
               store := store s @ [SymbolTable]\<rparr>)
      else if cur_sym_tab s = [] then Inl IndexError
      else
        Inr (s\<lparr>cur_sym_tab := cur_sym_tab s @ [length (store s)],
               store := store s @ [nested_table (last (cur_sym_tab s))]\<rparr>))"

definition pop_scope :: "pass_state \<Rightarrow> py_error + pass_state" where
  "pop_scope s =
     (if cur_sym_tab s = [] then Inl IndexError
      else Inr (s\<lparr>cur_sym_tab := butlast (cur_sym_tab s)\<rparr>))"

definition cur_scope :: "pass_state \<Rightarrow> py_error + addr" where
  "cur_scope s =
     (if cur_sym_tab s = [] then Inl IndexError else Inr (last (cur_sym_tab s)))"

definition sync_node_to_scope :: "ast_node \<Rightarrow> pass_state \<Rightarrow> py_error + pass_state" where
  "sync_node_to_scope node s =
     bind_r (cur_scope s)
       (\<lambda>a. Inr (s\<lparr>node_sym_tab := (node_sym_tab s)(nid node \<mapsto> a)\<rparr>))"

text \<open>
  The expression \<open>self.cur_scope().insert(name=.., sym_hit=.., node=.., single=True)\<close> used
  by every inserting handler: the table on top of the stack is updated in place and the
  colliding node, if any, is the value.
\<close>

definition scope_insert ::
  "string \<Rightarrow> symbol_hit_type \<Rightarrow> ast_node \<Rightarrow> pass_state
     \<Rightarrow> py_error + (ast_node option \<times> pass_state)" where
  "scope_insert name sym_hit node s =
     bind_r (cur_scope s)
       (\<lambda>a. case insert_sym (store s ! a) name sym_hit node True of
               (collide, t) \<Rightarrow> Inr (collide, s\<lparr>store := (store s)[a := t]\<rparr>))"

subsection \<open>Diagnostics (lines 35 to 52)\<close>

text \<open>
  Modelled from the spec: \<open>Pass.error\<close> and \<open>Pass.ice\<close> belong to the pass framework, which
  is not among the sources. By section 7 of the specification every error is recorded in the
  diagnostics sink and the traversal continues; an internal compiler error is a diagnostic of
  its own class. The specification does not say what \<open>ice()\<close> returns; where the source formats
  that value into a message the text of Python's absent value stands for it.
\<close>

definition error :: "string \<Rightarrow> pass_state \<Rightarrow> pass_state" where
  "error msg s = s\<lparr>errors := errors s @ [Error msg]\<rparr>"

definition ice :: "pass_state \<Rightarrow> string \<times> pass_state" where
  "ice s = (''None'', s\<lparr>errors := errors s @ [ICE]\<rparr>)"

text \<open>Python's \<open>str\<close> of an integer, as an f-string renders \<open>line\<close>.\<close>

definition digit_char :: "nat \<Rightarrow> char" where
  "digit_char d = char_of (48 + d)"

function string_of_nat :: "nat \<Rightarrow> string" where
  "string_of_nat n =
     (if n < 10 then [digit_char n]
      else string_of_nat (n div 10) @ [digit_char (n mod 10)])"
  by pat_completeness auto
termination
  by (relation "measure id") auto

definition string_of_int :: "int \<Rightarrow> string" where
  "string_of_int i =
     (if i < 0 then CHR ''-'' # string_of_nat (nat (- i)) else string_of_nat (nat i))"

text \<open>\<open>X.mod_link.rel_mod_path if X.mod_link else self.ice()\<close>\<close>

definition mod_path_of :: "ast_node \<Rightarrow> pass_state \<Rightarrow> string \<times> pass_state" where
  "mod_path_of n s = (case mod_link n of Some p \<Rightarrow> (p, s) | None \<Rightarrow> ice s)"

fun other_sites :: "ast_node list \<Rightarrow> string \<Rightarrow> pass_state \<Rightarrow> string \<times> pass_state" where
  "other_sites [] err_msg s = (err_msg, s)"
| "other_sites (i # rest) err_msg s =
     (case mod_path_of i s of
        (mod_path, s') \<Rightarrow>
          other_sites rest
            (err_msg @ '', '' @ mod_path @ '', line '' @ string_of_int (line i)) s')"

definition already_declared_err ::
  "string \<Rightarrow> string \<Rightarrow> ast_node \<Rightarrow> ast_node list option \<Rightarrow> pass_state \<Rightarrow> pass_state" where
  "already_declared_err name typ original other_nodes s =
     (case mod_path_of original s of
        (mod_path, s1) \<Rightarrow>
          (case other_sites (case other_nodes of None \<Rightarrow> [] | Some ns \<Rightarrow> ns)
                  (''Name used for '' @ typ @ '' '' @ [CHR 0x27] @ name @ [CHR 0x27]
                     @ '' already declared at '' @ mod_path @ '', line ''
                     @ string_of_int (line original)) s1 of
             (err_msg, s2) \<Rightarrow> error err_msg s2))"

declare string_of_nat.simps [simp del]

subsection \<open>The syntax tree\<close>

text \<open>
  The node classes of \<open>jaclang.jac.absyntree\<close> are not among the sources; each constructor
  below carries exactly the attributes its handler reads. Results of helper methods defined
  outside the pass are node data: \<open>py_resolve_name()\<close> of an ability or of an \<open>ArchRef\<close> is the
  string it returns, \<open>get_all_sub_nodes(node, Assignment)\<close> is the list of assignments.
\<close>

text \<open>An element of \<open>DottedNameList.names\<close>: an \<open>ArchRef\<close> with its resolved name, or another token.\<close>

datatype name_ref = ArchRef string | OtherRef

text \<open>\<open>arch_attached.parent\<close> of an ability: an \<open>Architype\<close> with its \<open>name.value\<close>, or another node.\<close>

datatype arch_parent = ParentArchitype string | ParentOther

text \<open>A \<open>ModuleItem\<close>: \<open>alias.value\<close> if it has an alias, and \<open>name.value\<close>.\<close>

record module_item =
  item_alias :: "string option"
  item_name :: string

text \<open>
  An \<open>Import\<close>: \<open>items.items\<close> if present, \<open>is_absorb\<close>, the identity of \<open>sub_module\<close> if
  present (its \<open>sym_tab\<close> attribute is read from the state) and \<open>path.path_str\<close>.
\<close>

record import_node =
  items :: "module_item list option"
  is_absorb :: bool
  sub_module :: "nat option"
  path_str :: string

text \<open>An \<open>Assignment\<close> below a \<open>GlobalVars\<close>: the node and \<open>target.value\<close> if the target is a \<open>Name\<close>.\<close>

type_synonym assignment = "ast_node \<times> string option"

text \<open>
  The node kinds that have a handler with more than the single statement
  \<open>self.sync_node_to_scope(node)\<close>, the two implementation blocks \<open>ArchDef\<close> and \<open>EnumDef\<close>,
  and \<open>Other\<close> for each of the remaining kinds (\<open>Elements\<close>, \<open>ModulePath\<close>, ..., \<open>Constant\<close>),
  whose handlers are that single statement.
\<close>

datatype node_kind =
    Module
  | GlobalVars "assignment list"
  | Test "string option"
  | ModuleCode
  | Import import_node
  | Architype string
  | ArchDef
  | Ability "arch_parent option" string
  | AbilityDef "name_ref list option" string
  | Enum string
  | EnumDef
  | Other

datatype ast = Node ast_node node_kind "ast list"

subsection \<open>Handlers (lines 54 to 477)\<close>

definition resolve_ability_symtab_name :: "arch_parent option \<Rightarrow> string \<Rightarrow> string" where
  "resolve_ability_symtab_name arch_attached py_name =
     (case arch_attached of
        Some (ParentArchitype arch_name) \<Rightarrow> arch_name @ ''.'' @ py_name
      | _ \<Rightarrow> py_name)"

text \<open>
  \<open>if collide := self.cur_scope().insert(..): self.already_declared_err(name, typ, collide)\<close>
\<close>

definition insert_or_report ::
  "string \<Rightarrow> symbol_hit_type \<Rightarrow> ast_node \<Rightarrow> string \<Rightarrow> pass_state \<Rightarrow> py_error + pass_state" where
  "insert_or_report name sym_hit node typ s =
     bind_r (scope_insert name sym_hit node s)
       (\<lambda>(collide, s').
          case collide of
            None \<Rightarrow> Inr s'
          | Some c \<Rightarrow> Inr (already_declared_err name typ c None s'))"

definition enter_module :: "ast_node \<Rightarrow> pass_state \<Rightarrow> py_error + pass_state" where
  "enter_module node s = bind_r (push_scope True s) (sync_node_to_scope node)"

definition exit_module :: "ast_node \<Rightarrow> pass_state \<Rightarrow> py_error + pass_state" where
  "exit_module node s = pop_scope s"

fun global_vars_loop :: "assignment list \<Rightarrow> pass_state \<Rightarrow> py_error + pass_state" where
  "global_vars_loop [] s = Inr s"
| "global_vars_loop ((i, target) # rest) s =
     (case target of
        None \<Rightarrow> global_vars_loop rest (snd (ice s))
      | Some v \<Rightarrow>
          bind_r (insert_or_report v DECL i ''global var'' s) (global_vars_loop rest))"

definition enter_global_vars ::
  "ast_node \<Rightarrow> assignment list \<Rightarrow> pass_state \<Rightarrow> py_error + pass_state" where
  "enter_global_vars node assignments s =
     bind_r (global_vars_loop assignments s) (sync_node_to_scope node)"

definition enter_test :: "ast_node \<Rightarrow> string option \<Rightarrow> pass_state \<Rightarrow> py_error + pass_state" where
  "enter_test node name s =
     bind_r (case name of
               None \<Rightarrow> Inr s
             | Some v \<Rightarrow> insert_or_report v DECL node ''test'' s)
       (\<lambda>s1. bind_r (push_scope False s1) (sync_node_to_scope node))"

definition exit_test :: "ast_node \<Rightarrow> pass_state \<Rightarrow> py_error + pass_state" where
  "exit_test node s = pop_scope s"

definition enter_module_code :: "ast_node \<Rightarrow> pass_state \<Rightarrow> py_error + pass_state" where
  "enter_module_code node s = bind_r (push_scope False s) (sync_node_to_scope node)"

definition exit_module_code :: "ast_node \<Rightarrow> pass_state \<Rightarrow> py_error + pass_state" where
  "exit_module_code node s = pop_scope s"

fun import_items_loop ::
  "ast_node \<Rightarrow> module_item list \<Rightarrow> pass_state \<Rightarrow> py_error + pass_state" where
  "import_items_loop node [] s = Inr s"
| "import_items_loop node (i # rest) s =
     bind_r (insert_or_report (case item_alias i of Some a \<Rightarrow> a | None \<Rightarrow> item_name i)
               DECL node ''import item'' s)
       (import_items_loop node rest)"

definition enter_import :: "ast_node \<Rightarrow> import_node \<Rightarrow> pass_state \<Rightarrow> py_error + pass_state" where
  "enter_import node imp s =
     bind_r (case items imp of
               None \<Rightarrow> Inr s
             | Some its \<Rightarrow> import_items_loop node its s)
       (sync_node_to_scope node)"

text \<open>
  Lines 211 to 225, one round of the loop over \<open>node.sub_module.sym_tab.tab.items()\<close>. The
  receiver \<open>self.cur_scope()\<close> is evaluated before the arguments, which hold \<open>v.defn[-1]\<close>.
\<close>

definition absorb_item :: "string \<times> symbol \<Rightarrow> pass_state \<Rightarrow> py_error + pass_state" where
  "absorb_item kv s =
     (case kv of (k, v) \<Rightarrow>
        bind_r (cur_scope s) (\<lambda>_.
        bind_r (case decl v of
                  Some d \<Rightarrow> Inr (DECL, d)
                | None \<Rightarrow> if defn v = [] then Inl IndexError else Inr (DEFN, last (defn v)))
          (\<lambda>(sym_hit, node).
             bind_r (scope_insert k sym_hit node s)
               (\<lambda>(collide, s').
                  case collide of
                    None \<Rightarrow> Inr s'
                  | Some c \<Rightarrow>
                      (case (case decl v of
                               Some d \<Rightarrow> Some d
                             | None \<Rightarrow> if length (defn v) \<noteq> 0 then Some (last (defn v)) else None) of
                         Some other_node \<Rightarrow>
                           Inr (already_declared_err k ''include item'' c (Some [other_node]) s')
                       | None \<Rightarrow>
                           Inr (already_declared_err k ''include item'' c None s'))))))"

fun absorb_loop :: "(string \<times> symbol) list \<Rightarrow> pass_state \<Rightarrow> py_error + pass_state" where
  "absorb_loop [] s = Inr s"
| "absorb_loop (kv # rest) s = bind_r (absorb_item kv s) (absorb_loop rest)"

text \<open>
  \<open>node.sub_module.sym_tab\<close> is the table the sub-module node was stamped with, if any. The
  items of its dict are fixed when the loop starts: an insertion under \<open>single=True\<close> never
  changes a dict that already has the name, so the dict iterated over is not resized even
  when it is the active scope itself.
\<close>

definition sub_module_sym_tab :: "import_node \<Rightarrow> pass_state \<Rightarrow> addr option" where
  "sub_module_sym_tab imp s =
     (case sub_module imp of None \<Rightarrow> None | Some m \<Rightarrow> node_sym_tab s m)"

definition exit_import :: "ast_node \<Rightarrow> import_node \<Rightarrow> pass_state \<Rightarrow> py_error + pass_state" where
  "exit_import node imp s =
     bind_r (if is_absorb imp then
               (case sub_module_sym_tab imp s of
                  None \<Rightarrow>
                    Inr (error (''Module '' @ path_str imp
                                  @ '' not found to include *, or ICE occurred!'') s)
                | Some sa \<Rightarrow> absorb_loop (tab (store s ! sa)) s)
             else Inr s)
       (sync_node_to_scope node)"

definition enter_architype :: "ast_node \<Rightarrow> string \<Rightarrow> pass_state \<Rightarrow> py_error + pass_state" where
  "enter_architype node name s =
     bind_r (insert_or_report name DECL node ''architype'' s)
       (\<lambda>s1. bind_r (push_scope False s1) (sync_node_to_scope node))"

definition exit_architype :: "ast_node \<Rightarrow> pass_state \<Rightarrow> py_error + pass_state" where
  "exit_architype node s = pop_scope s"

definition enter_arch_def :: "ast_node \<Rightarrow> pass_state \<Rightarrow> py_error + pass_state" where
  "enter_arch_def node s = sync_node_to_scope node s"

definition enter_ability ::
  "ast_node \<Rightarrow> arch_parent option \<Rightarrow> string \<Rightarrow> pass_state \<Rightarrow> py_error + pass_state" where
  "enter_ability node arch_attached py_name s =
     bind_r (insert_or_report (resolve_ability_symtab_name arch_attached py_name)
               DECL node ''ability'' s)
       (\<lambda>s1. bind_r (push_scope False s1) (sync_node_to_scope node))"

definition exit_ability :: "ast_node \<Rightarrow> pass_state \<Rightarrow> py_error + pass_state" where
  "exit_ability node s = pop_scope s"

text \<open>
  Lines 370 to 378 of \<open>enter_ability_def\<close>: the key \<open>ability_name\<close> and the state after the
  error they may report. \<open>node.target.names[-1]\<close> raises on an empty list; a last name that is
  no \<open>ArchRef\<close> makes the owner the empty string.
\<close>

definition ability_def_name ::
  "name_ref list option \<Rightarrow> string \<Rightarrow> pass_state \<Rightarrow> py_error + (string \<times> pass_state)" where
  "ability_def_name target py_name s =
     (case target of
        None \<Rightarrow> Inr (py_name, s)
      | Some names \<Rightarrow>
          if names = [] then Inl IndexError
          else
            (case last names of
               ArchRef owner \<Rightarrow> Inr (owner @ ''.'' @ py_name, s)
             | OtherRef \<Rightarrow>
                 Inr ([] @ ''.'' @ py_name, error ''Expected reference to Architype!'' s)))"

definition enter_ability_def ::
  "ast_node \<Rightarrow> name_ref list option \<Rightarrow> string \<Rightarrow> pass_state \<Rightarrow> py_error + pass_state" where
  "enter_ability_def node target py_name s =
     bind_r (ability_def_name target py_name s)
       (\<lambda>(ability_name, s0).
          bind_r (insert_or_report ability_name DEFN node ''ability def'' s0)
            (\<lambda>s1. bind_r (push_scope False s1) (sync_node_to_scope node)))"

definition exit_ability_def :: "ast_node \<Rightarrow> pass_state \<Rightarrow> py_error + pass_state" where
  "exit_ability_def node s = pop_scope s"

definition enter_enum :: "ast_node \<Rightarrow> string \<Rightarrow> pass_state \<Rightarrow> py_error + pass_state" where
  "enter_enum node name s =
     bind_r (insert_or_report name DECL node ''enum'' s)
       (\<lambda>s1. bind_r (push_scope False s1) (sync_node_to_scope node))"

definition enter_enum_def :: "ast_node \<Rightarrow> pass_state \<Rightarrow> py_error + pass_state" where
  "enter_enum_def node s = sync_node_to_scope node s"

text \<open>
  Every other \<open>enter_\<close> handler of the class (lines 90 to 96, 228 to 252, 301 to 315,
  401 to 445 and 479 to 1075).
\<close>

definition enter_other :: "ast_node \<Rightarrow> pass_state \<Rightarrow> py_error + pass_state" where
  "enter_other node s = sync_node_to_scope node s"

subsection \<open>The traversal driver\<close>

text \<open>
  Modelled from the spec: the driver (\<open>Pass.traverse\<close> with its dispatch on the node kind)
  is part of the pass framework, which is not among the sources. By sections 2 and 5 of the
  specification it calls the enter handler of a node, visits the children from left to right
  and then calls the exit handler of the node; a kind for which the class defines no handler
  has none called. The class defines exit handlers for \<open>Module\<close>, \<open>Test\<close>, \<open>ModuleCode\<close>,
  \<open>Import\<close>, \<open>Architype\<close>, \<open>Ability\<close> and \<open>AbilityDef\<close> only.
\<close>

fun enter_node :: "ast_node \<Rightarrow> node_kind \<Rightarrow> pass_state \<Rightarrow> py_error + pass_state" where
  "enter_node node Module s = enter_module node s"
| "enter_node node (GlobalVars assignments) s = enter_global_vars node assignments s"
| "enter_node node (Test name) s = enter_test node name s"
| "enter_node node ModuleCode s = enter_module_code node s"
| "enter_node node (Import imp) s = enter_import node imp s"
| "enter_node node (Architype name) s = enter_architype node name s"
| "enter_node node ArchDef s = enter_arch_def node s"
| "enter_node node (Ability arch_attached py_name) s = enter_ability node arch_attached py_name s"
| "enter_node node (AbilityDef target py_name) s = enter_ability_def node target py_name s"
| "enter_node node (Enum name) s = enter_enum node name s"
| "enter_node node EnumDef s = enter_enum_def node s"
| "enter_node node Other s = enter_other node s"

fun exit_node :: "ast_node \<Rightarrow> node_kind \<Rightarrow> pass_state \<Rightarrow> py_error + pass_state" where
  "exit_node node Module s = exit_module node s"
| "exit_node node (Test name) s = exit_test node s"
| "exit_node node ModuleCode s = exit_module_code node s"
| "exit_node node (Import imp) s = exit_import node imp s"
| "exit_node node (Architype name) s = exit_architype node s"
| "exit_node node (Ability arch_attached py_name) s = exit_ability node s"
| "exit_node node (AbilityDef target py_name) s = exit_ability_def node s"
| "exit_node node _ s = Inr s"

fun traverse :: "ast \<Rightarrow> pass_state \<Rightarrow> py_error + pass_state"
  and traverse_kids :: "ast list \<Rightarrow> pass_state \<Rightarrow> py_error + pass_state" where
  "traverse (Node node kind kid) s =
     bind_r (enter_node node kind s)
       (\<lambda>s1. bind_r (traverse_kids kid s1) (exit_node node kind))"
| "traverse_kids [] s = Inr s"
| "traverse_kids (k # rest) s = bind_r (traverse k s) (traverse_kids rest)"

definition run_pass :: "ast \<Rightarrow> pass_state \<Rightarrow> py_error + pass_state" where
  "run_pass ir s = traverse ir (before_pass s)"

text \<open>The state of a pass object that has recorded nothing yet, with no table in the store.\<close>

definition init_state :: pass_state where
  "init_state = \<lparr>cur_sym_tab = [], store = [], node_sym_tab = Map.empty, errors = []\<rparr>"

subsection \<open>Observations used in the statements\<close>

text \<open>The names bound in the table at an address, in insertion order.\<close>

definition keys_at :: "addr \<Rightarrow> pass_state \<Rightarrow> string list" where
  "keys_at a s = map fst (tab (store s ! a))"

text \<open>
  The occurrence of a record that an absorbing import carries over, in the words of section
  4.4 of the specification: a declaration, with the declaring node, if the record has one,
  else a definition with its last defining node; a record without any occurrence has none.
\<close>

definition absorbed_occurrence :: "symbol \<Rightarrow> (symbol_hit_type \<times> ast_node) option" where
  "absorbed_occurrence v =
     (case decl v of
        Some d \<Rightarrow> Some (DECL, d)
      | None \<Rightarrow> if defn v = [] then None else Some (DEFN, last (defn v)))"

text \<open>
  The kinds whose enter handler calls \<open>push_scope\<close>, the kinds whose exit handler calls
  \<open>pop_scope\<close>, and the number of \<open>Enum\<close> nodes of a tree.
\<close>

fun pushes :: "node_kind \<Rightarrow> nat" where
  "pushes Module = 1"
| "pushes (Test name) = 1"
| "pushes ModuleCode = 1"
| "pushes (Architype name) = 1"
| "pushes (Ability arch_attached py_name) = 1"
| "pushes (AbilityDef target py_name) = 1"
| "pushes (Enum name) = 1"
| "pushes _ = 0"

fun pops :: "node_kind \<Rightarrow> nat" where
  "pops Module = 1"
| "pops (Test name) = 1"
| "pops ModuleCode = 1"
| "pops (Architype name) = 1"
| "pops (Ability arch_attached py_name) = 1"
| "pops (AbilityDef target py_name) = 1"
| "pops _ = 0"

fun enum_count :: "ast \<Rightarrow> nat"
  and enum_count_kids :: "ast list \<Rightarrow> nat" where
  "enum_count (Node node kind kid) =
     (case kind of Enum name \<Rightarrow> 1 | _ \<Rightarrow> 0) + enum_count_kids kid"
| "enum_count_kids [] = 0"
| "enum_count_kids (k # rest) = enum_count k + enum_count_kids rest"

section \<open>Verified properties\<close>

lemmas stack_defs = before_pass_def push_scope_def pop_scope_def cur_scope_def
  sync_node_to_scope_def scope_insert_def bind_r_def SymbolTable_def nested_table_def
  init_state_def

lemmas report_defs = insert_or_report_def already_declared_err_def mod_path_of_def error_def
  ice_def insert_sym_def occupant_def new_symbol_def

subsection \<open>Facts about insertion and reporting\<close>

lemma bind_r_Inr: "bind_r (Inr x) f = f x"
  by (simp add: bind_r_def)

lemma bind_r_Inl: "bind_r (Inl e) f = Inl e"
  by (simp add: bind_r_def)

lemma scope_insert_absent:
  assumes "cur_sym_tab s = st @ [a]" and "map_of (tab (store s ! a)) name = None"
  shows "scope_insert name hit node s =
           Inr (None, s\<lparr>store := (store s)[a := (store s ! a)
                  \<lparr>tab := tab (store s ! a) @ [(name, new_symbol hit node)]\<rparr>]\<rparr>)"
  using assms by (simp add: scope_insert_def cur_scope_def bind_r_def insert_sym_def)

lemma scope_insert_present:
  assumes "cur_sym_tab s = st @ [a]" and "map_of (tab (store s ! a)) name = Some r"
  shows "scope_insert name hit node s = Inr (occupant r, s)"
  using assms by (simp add: scope_insert_def cur_scope_def bind_r_def insert_sym_def)

lemma scope_insert_empty: "cur_sym_tab s = [] \<Longrightarrow> scope_insert name hit node s = Inl IndexError"
  by (simp add: scope_insert_def cur_scope_def bind_r_def)

lemma insert_or_report_absent:
  assumes "cur_sym_tab s = st @ [a]" and "map_of (tab (store s ! a)) name = None"
  shows "insert_or_report name hit node typ s =
           Inr (s\<lparr>store := (store s)[a := (store s ! a)
                  \<lparr>tab := tab (store s ! a) @ [(name, new_symbol hit node)]\<rparr>]\<rparr>)"
  by (simp add: insert_or_report_def scope_insert_absent [OF assms] bind_r_def)

lemma insert_or_report_present:
  assumes "cur_sym_tab s = st @ [a]" and "map_of (tab (store s ! a)) name = Some r"
  shows "insert_or_report name hit node typ s =
           Inr (case occupant r of None \<Rightarrow> s | Some c \<Rightarrow> already_declared_err name typ c None s)"
  by (simp add: insert_or_report_def scope_insert_present [OF assms] bind_r_def split: option.split)

lemma other_sites_frame:
  "cur_sym_tab (snd (other_sites ns msg s)) = cur_sym_tab s \<and>
   store (snd (other_sites ns msg s)) = store s \<and>
   node_sym_tab (snd (other_sites ns msg s)) = node_sym_tab s"
  by (induction ns arbitrary: msg s) (simp_all add: mod_path_of_def ice_def split: option.split)

lemma mod_path_of_frame:
  "cur_sym_tab (snd (mod_path_of c s)) = cur_sym_tab s \<and>
   store (snd (mod_path_of c s)) = store s \<and>
   node_sym_tab (snd (mod_path_of c s)) = node_sym_tab s"
  by (simp add: mod_path_of_def ice_def split: option.split)

lemma already_declared_err_frame:
  "cur_sym_tab (already_declared_err name typ c others s) = cur_sym_tab s \<and>
   store (already_declared_err name typ c others s) = store s \<and>
   node_sym_tab (already_declared_err name typ c others s) = node_sym_tab s"
proof -
  obtain p s1 where a: "mod_path_of c s = (p, s1)"
    by (cases "mod_path_of c s")
  define m0 where "m0 = ''Name used for '' @ typ @ '' '' @ [CHR 0x27] @ name @ [CHR 0x27]
          @ '' already declared at '' @ p @ '', line '' @ string_of_int (line c)"
  define ns where "ns = (case others of None \<Rightarrow> [] | Some ns \<Rightarrow> ns)"
  obtain msg s2 where b: "other_sites ns m0 s1 = (msg, s2)"
    by (cases "other_sites ns m0 s1")
  have f1: "cur_sym_tab s1 = cur_sym_tab s \<and> store s1 = store s \<and> node_sym_tab s1 = node_sym_tab s"
    using mod_path_of_frame [of c s] by (simp add: a)
  have f2: "cur_sym_tab s2 = cur_sym_tab s1 \<and> store s2 = store s1 \<and> node_sym_tab s2 = node_sym_tab s1"
    using other_sites_frame [of ns m0 s1] by (simp add: b)
  have "already_declared_err name typ c others s = error msg s2"
    unfolding already_declared_err_def a using b by (simp add: m0_def ns_def)
  then show ?thesis
    using f1 f2 by (simp add: error_def)
qed

lemma already_declared_err_linked:
  assumes "mod_link c = Some p"
  shows "already_declared_err name typ c None s =
           s\<lparr>errors := errors s @
               [Error (''Name used for '' @ typ @ '' '' @ [CHR 0x27] @ name @ [CHR 0x27]
                        @ '' already declared at '' @ p @ '', line '' @ string_of_int (line c))]\<rparr>"
  using assms by (simp add: already_declared_err_def mod_path_of_def error_def)

lemma other_sites_errors: "\<exists>xs. errors (snd (other_sites ns msg s)) = errors s @ xs"
proof (induction ns arbitrary: msg s)
  case Nil
  then show ?case by simp
next
  case (Cons i rest)
  obtain p s1 where a: "mod_path_of i s = (p, s1)"
    by (cases "mod_path_of i s")
  have "\<exists>ys. errors s1 = errors s @ ys"
    using a by (auto simp add: mod_path_of_def ice_def split: option.splits)
  then obtain ys where b: "errors s1 = errors s @ ys" ..
  obtain zs where
    "errors (snd (other_sites rest (msg @ '', '' @ p @ '', line '' @ string_of_int (line i)) s1))
       = errors s1 @ zs"
    using Cons.IH by blast
  then show ?case
    by (simp add: a b)
qed

lemma already_declared_err_errors:
  "\<exists>xs. errors (already_declared_err name typ c others s) = errors s @ xs"
proof -
  obtain p s1 where a: "mod_path_of c s = (p, s1)"
    by (cases "mod_path_of c s")
  define m0 where "m0 = ''Name used for '' @ typ @ '' '' @ [CHR 0x27] @ name @ [CHR 0x27]
          @ '' already declared at '' @ p @ '', line '' @ string_of_int (line c)"
  define ns where "ns = (case others of None \<Rightarrow> [] | Some ns \<Rightarrow> ns)"
  obtain msg s2 where b: "other_sites ns m0 s1 = (msg, s2)"
    by (cases "other_sites ns m0 s1")
  have "\<exists>ys. errors s1 = errors s @ ys"
    using a by (auto simp add: mod_path_of_def ice_def split: option.splits)
  then obtain ys where f1: "errors s1 = errors s @ ys" ..
  obtain zs where f2: "errors s2 = errors s1 @ zs"
    using other_sites_errors [of ns m0 s1] by (auto simp add: b)
  have "already_declared_err name typ c others s = error msg s2"
    unfolding already_declared_err_def a using b by (simp add: m0_def ns_def)
  then show ?thesis
    using f1 f2 by (simp add: error_def)
qed

lemma push_sync:
  assumes "cur_sym_tab s \<noteq> []"
  shows "bind_r (push_scope False s) (sync_node_to_scope node) =
           Inr (s\<lparr>cur_sym_tab := cur_sym_tab s @ [length (store s)],
                  store := store s @ [nested_table (last (cur_sym_tab s))],
                  node_sym_tab := (node_sym_tab s)(nid node \<mapsto> length (store s))\<rparr>)"
  using assms by (simp add: push_scope_def sync_node_to_scope_def cur_scope_def bind_r_def)

subsection \<open>The scope stack\<close>

text \<open>
  C1 (evaluation at the input on which the claim fails). The claim: after the traversal of a
  module the scope stack is back at its single initial entry. On a module that holds one enum
  declaration the pass ends with two entries: \<open>enter_enum\<close> pushes a scope and the class has
  no \<open>exit_enum\<close> to pop it, so the pop of \<open>exit_module\<close> removes the scope of the enum and
  the scope of the module stays on the stack.
\<close>

theorem enum_scope_never_popped:
  "map_sum id cur_sym_tab
     (run_pass (Node \<lparr>nid = 0, line = 1, mod_link = Some ''m.jac''\<rparr> Module
                 [Node \<lparr>nid = 1, line = 2, mod_link = Some ''m.jac''\<rparr> (Enum ''Color'') []])
        init_state) = Inr [0, 1]"
  by (simp add: run_pass_def enter_module_def enter_enum_def exit_module_def stack_defs
      report_defs)

text \<open>
  C2 as stated fails: \<open>pop_scope\<close> on a stack of one entry returns normally and leaves the
  stack without entries.
\<close>

theorem pop_scope_last_entry_counterexample:
  "cur_sym_tab (before_pass init_state) = [0] \<and>
   pop_scope (before_pass init_state) = Inr ((before_pass init_state)\<lparr>cur_sym_tab := []\<rparr>)"
  by (simp add: stack_defs)

text \<open>
  C2 (amended). \<open>pop_scope\<close> fails exactly when the stack is already empty. On a stack
  \<open>st @ [a]\<close> it discards the top \<open>a\<close> and changes nothing else; the previous scope is active
  again when there is one.
\<close>

theorem pop_scope_discards_top:
  "(pop_scope s = Inl IndexError \<longleftrightarrow> cur_sym_tab s = []) \<and>
   (cur_sym_tab s = st @ [a] \<longrightarrow>
      pop_scope s = Inr (s\<lparr>cur_sym_tab := st\<rparr>) \<and>
      (st \<noteq> [] \<longrightarrow> bind_r (pop_scope s) cur_scope = Inr (last st)))"
  by (simp add: pop_scope_def cur_scope_def bind_r_def)

theorem pop_scope_discards_top_witness:
  "cur_sym_tab (init_state\<lparr>cur_sym_tab := [0, 1]\<rparr>) = [0] @ [1] \<and> [0::nat] \<noteq> [] \<and>
   pop_scope (init_state\<lparr>cur_sym_tab := [0, 1]\<rparr>) = Inr (init_state\<lparr>cur_sym_tab := [0]\<rparr>) \<and>
   bind_r (pop_scope (init_state\<lparr>cur_sym_tab := [0, 1]\<rparr>)) cur_scope = Inr 0 \<and>
   pop_scope (init_state\<lparr>cur_sym_tab := [0, 1]\<rparr>) \<noteq> Inl IndexError"
  using pop_scope_discards_top [of "init_state\<lparr>cur_sym_tab := [0, 1]\<rparr>" "[0]" 1]
  by (simp add: init_state_def pop_scope_def cur_scope_def bind_r_def)

subsection \<open>Keys of abilities\<close>

text \<open>
  C4. An ability attached to the body of an architype is keyed by the name of the architype,
  a dot and its resolved name; an ability that is not attached, or whose block belongs to
  another kind of node, is keyed by its resolved name alone. Abilities of the same name in
  two architypes of different names get different keys.
\<close>

theorem resolve_ability_symtab_name_keys:
  "resolve_ability_symtab_name (Some (ParentArchitype owner)) n = owner @ ''.'' @ n \<and>
   resolve_ability_symtab_name (Some ParentOther) n = n \<and>
   resolve_ability_symtab_name None n = n \<and>
   (owner \<noteq> owner' \<longrightarrow>
      resolve_ability_symtab_name (Some (ParentArchitype owner)) n
        \<noteq> resolve_ability_symtab_name (Some (ParentArchitype owner')) n)"
  by (simp add: resolve_ability_symtab_name_def)

theorem resolve_ability_symtab_name_keys_witness:
  "''Foo'' \<noteq> ''Bar'' \<and>
   resolve_ability_symtab_name (Some (ParentArchitype ''Foo'')) ''init'' = ''Foo.init'' \<and>
   resolve_ability_symtab_name (Some (ParentArchitype ''Bar'')) ''init'' = ''Bar.init'' \<and>
   resolve_ability_symtab_name (Some (ParentArchitype ''Foo'')) ''init''
     \<noteq> resolve_ability_symtab_name (Some (ParentArchitype ''Bar'')) ''init''"
  using resolve_ability_symtab_name_keys [of "''Foo''" "''init''" "''Bar''"]
  by (simp add: resolve_ability_symtab_name_def)

text \<open>
  C3 as stated fails: when the last name of the target is no \<open>ArchRef\<close> the owner becomes the
  empty string and the key is still built as owner, dot, name. For an ability \<open>talk\<close> the
  name inserted is \<open>.talk\<close>, not \<open>talk\<close>.
\<close>

theorem enter_ability_def_bad_owner_counterexample:
  "map_sum id (keys_at 0)
     (enter_ability_def \<lparr>nid = 5, line = 9, mod_link = Some ''m.jac''\<rparr> (Some [OtherRef]) ''talk''
        (before_pass init_state)) = Inr [''.talk'']"
  by (simp add: enter_ability_def_def ability_def_name_def keys_at_def stack_defs report_defs)

text \<open>
  C3 (amended). For an ability definition with a target whose last name is no \<open>ArchRef\<close>,
  entered with the active scope at address \<open>a\<close>: the handler returns, the first diagnostic it
  records is the error \<open>Expected reference to Architype!\<close>, and the key of the insertion is a
  dot followed by the resolved name of the ability. That key is bound in the active scope
  afterwards, the binding of the bare name is what it was, and when the key was free the new
  record holds the node as its only definition and the error is the only new diagnostic.
\<close>

theorem enter_ability_def_bad_owner:
  assumes "names \<noteq> []" and "last names = OtherRef"
    and "cur_sym_tab s = st @ [a]" and "a < length (store s)"
  shows "\<exists>s'. enter_ability_def node (Some names) n s = Inr s' \<and>
           take (Suc (length (errors s))) (errors s')
             = errors s @ [Error ''Expected reference to Architype!''] \<and>
           map_of (tab (store s' ! a)) (''.'' @ n) \<noteq> None \<and>
           map_of (tab (store s' ! a)) n = map_of (tab (store s ! a)) n \<and>
           (map_of (tab (store s ! a)) (''.'' @ n) = None \<longrightarrow>
              tab (store s' ! a)
                = tab (store s ! a) @ [(''.'' @ n, \<lparr>decl = None, defn = [node]\<rparr>)] \<and>
              errors s' = errors s @ [Error ''Expected reference to Architype!''])"
proof -
  define s0 where "s0 = error ''Expected reference to Architype!'' s"
  have key: "ability_def_name (Some names) n s = Inr (''.'' @ n, s0)"
    using assms(1,2) by (simp add: ability_def_name_def s0_def)
  have s0: "cur_sym_tab s0 = st @ [a]" "store s0 = store s"
    "errors s0 = errors s @ [Error ''Expected reference to Architype!'']"
    using assms(3) by (simp_all add: s0_def error_def)
  have unfold: "enter_ability_def node (Some names) n s =
      bind_r (insert_or_report (''.'' @ n) DEFN node ''ability def'' s0)
        (\<lambda>s1. bind_r (push_scope False s1) (sync_node_to_scope node))"
    by (simp add: enter_ability_def_def key bind_r_def)
  show ?thesis
  proof (cases "map_of (tab (store s ! a)) (''.'' @ n)")
    case None
    have "insert_or_report (''.'' @ n) DEFN node ''ability def'' s0 =
            Inr (s0\<lparr>store := (store s0)[a := (store s0 ! a)
                  \<lparr>tab := tab (store s0 ! a) @ [(''.'' @ n, new_symbol DEFN node)]\<rparr>]\<rparr>)"
      using None s0 by (intro insert_or_report_absent) simp_all
    then show ?thesis
      using None s0 assms(4)
      by (simp add: unfold bind_r_Inr push_sync nth_append new_symbol_def map_add_def
          split: option.split)
  next
    case (Some r)
    define s1 where "s1 = (case occupant r of None \<Rightarrow> s0
                           | Some c \<Rightarrow> already_declared_err (''.'' @ n) ''ability def'' c None s0)"
    have ins: "insert_or_report (''.'' @ n) DEFN node ''ability def'' s0 = Inr s1"
      unfolding s1_def using Some s0 by (intro insert_or_report_present) simp_all
    have fr: "cur_sym_tab s1 = st @ [a]" "store s1 = store s"
      using s0 already_declared_err_frame [of "''.'' @ n" "''ability def''" _ None s0]
      by (simp_all add: s1_def split: option.split)
    have "\<exists>xs. errors s1 = errors s0 @ xs"
      using already_declared_err_errors [of "''.'' @ n" "''ability def''" _ None s0]
      by (simp add: s1_def split: option.split)
    then obtain xs where er: "errors s1 = errors s0 @ xs" ..
    show ?thesis
      using ins Some fr er s0 assms(4)
      by (simp add: unfold bind_r_Inr push_sync nth_append)
  qed
qed

theorem enter_ability_def_bad_owner_witness:
  "[OtherRef] \<noteq> [] \<and> last [OtherRef] = OtherRef \<and>
   cur_sym_tab (before_pass init_state) = [] @ [0] \<and>
   0 < length (store (before_pass init_state)) \<and>
   (\<exists>s'. enter_ability_def \<lparr>nid = 5, line = 9, mod_link = Some ''m.jac''\<rparr> (Some [OtherRef])
            ''talk'' (before_pass init_state) = Inr s' \<and>
         keys_at 0 s' = [''.talk''] \<and>
         errors s' = [Error ''Expected reference to Architype!''])"
  using enter_ability_def_bad_owner
    [of "[OtherRef]" "before_pass init_state" "[]" 0
        "\<lparr>nid = 5, line = 9, mod_link = Some ''m.jac''\<rparr>" "''talk''"]
  by (auto simp add: before_pass_def init_state_def SymbolTable_def keys_at_def)

subsection \<open>Implementation blocks and declarations\<close>

text \<open>
  C9. \<open>enter_arch_def\<close> and \<open>enter_enum_def\<close> only stamp the node with the active scope: the
  stack, every table and the diagnostics are what they were (with no active scope the stamp
  raises). \<open>enter_architype\<close> and \<open>enter_enum\<close> push a new table, whose parent is the scope
  that was active, on top of the stack.
\<close>

theorem impl_blocks_open_no_scope:
  "enter_arch_def node s =
     (if cur_sym_tab s = [] then Inl IndexError
      else Inr (s\<lparr>node_sym_tab := (node_sym_tab s)(nid node \<mapsto> last (cur_sym_tab s))\<rparr>)) \<and>
   enter_enum_def node s =
     (if cur_sym_tab s = [] then Inl IndexError
      else Inr (s\<lparr>node_sym_tab := (node_sym_tab s)(nid node \<mapsto> last (cur_sym_tab s))\<rparr>)) \<and>
   (cur_sym_tab s \<noteq> [] \<longrightarrow>
      map_sum id cur_sym_tab (enter_architype node name s)
        = Inr (cur_sym_tab s @ [length (store s)]) \<and>
      map_sum id (\<lambda>s'. store s' ! length (store s)) (enter_architype node name s)
        = Inr (nested_table (last (cur_sym_tab s))) \<and>
      map_sum id cur_sym_tab (enter_enum node name s)
        = Inr (cur_sym_tab s @ [length (store s)]) \<and>
      map_sum id (\<lambda>s'. store s' ! length (store s)) (enter_enum node name s)
        = Inr (nested_table (last (cur_sym_tab s))))"
  by (simp add: enter_arch_def_def enter_enum_def_def enter_architype_def enter_enum_def
      stack_defs report_defs nth_append split: option.split prod.split)

theorem impl_blocks_open_no_scope_witness:
  "cur_sym_tab (before_pass init_state) \<noteq> [] \<and>
   enter_arch_def \<lparr>nid = 7, line = 3, mod_link = None\<rparr> (before_pass init_state)
     = Inr ((before_pass init_state)\<lparr>node_sym_tab := [7 \<mapsto> 0]\<rparr>) \<and>
   enter_enum_def \<lparr>nid = 7, line = 3, mod_link = None\<rparr> (before_pass init_state)
     = Inr ((before_pass init_state)\<lparr>node_sym_tab := [7 \<mapsto> 0]\<rparr>) \<and>
   map_sum id cur_sym_tab
     (enter_architype \<lparr>nid = 7, line = 3, mod_link = None\<rparr> ''Foo'' (before_pass init_state))
     = Inr [0, 1] \<and>
   map_sum id cur_sym_tab
     (enter_enum \<lparr>nid = 7, line = 3, mod_link = None\<rparr> ''Color'' (before_pass init_state))
     = Inr [0, 1]"
  using impl_blocks_open_no_scope
    [of "\<lparr>nid = 7, line = 3, mod_link = None\<rparr>" "before_pass init_state" "''Color''"]
    impl_blocks_open_no_scope
    [of "\<lparr>nid = 7, line = 3, mod_link = None\<rparr>" "before_pass init_state" "''Foo''"]
  by (simp add: stack_defs)

subsection \<open>Absorbing imports\<close>

text \<open>
  C7. On the exit of an absorbing import whose sub-module is missing or carries no symbol
  table, exactly one error is recorded and the node is stamped; the stack and every table,
  so the scope of the importer too, are what they were.
\<close>

theorem exit_import_unresolved:
  assumes "is_absorb imp" and "sub_module_sym_tab imp s = None" and "cur_sym_tab s \<noteq> []"
  shows "exit_import node imp s =
           Inr (s\<lparr>errors := errors s @
                     [Error (''Module '' @ path_str imp @ '' not found to include *, or ICE occurred!'')],
                  node_sym_tab := (node_sym_tab s)(nid node \<mapsto> last (cur_sym_tab s))\<rparr>)"
  using assms by (simp add: exit_import_def stack_defs error_def)

theorem exit_import_unresolved_witness:
  "is_absorb \<lparr>items = None, is_absorb = True, sub_module = None, path_str = ''lib.util''\<rparr> \<and>
   sub_module_sym_tab
     \<lparr>items = None, is_absorb = True, sub_module = None, path_str = ''lib.util''\<rparr>
     (before_pass init_state) = None \<and>
   cur_sym_tab (before_pass init_state) \<noteq> [] \<and>
   exit_import \<lparr>nid = 4, line = 2, mod_link = None\<rparr>
     \<lparr>items = None, is_absorb = True, sub_module = None, path_str = ''lib.util''\<rparr>
     (before_pass init_state) =
     Inr ((before_pass init_state)
            \<lparr>errors := [Error ''Module lib.util not found to include *, or ICE occurred!''],
             node_sym_tab := [4 \<mapsto> 0]\<rparr>)"
  using exit_import_unresolved
    [of "\<lparr>items = None, is_absorb = True, sub_module = None, path_str = ''lib.util''\<rparr>"
        "before_pass init_state" "\<lparr>nid = 4, line = 2, mod_link = None\<rparr>"]
  by (simp add: sub_module_sym_tab_def stack_defs)

subsection \<open>Whole runs of the pass\<close>

lemmas handler_defs = run_pass_def enter_module_def exit_module_def enter_global_vars_def
  enter_other_def enter_architype_def exit_architype_def enter_ability_def exit_ability_def
  enter_ability_def_def exit_ability_def_def ability_def_name_def resolve_ability_symtab_name_def

text \<open>
  Two global variables of the same name \<open>x\<close> entered with the same active scope, in two
  adjacent \<open>GlobalVars\<close> statements or in one: the run records exactly one diagnostic, whose
  text names the label \<open>global var\<close>, the name, and the module path and line of the first
  assignment; the module scope binds \<open>x\<close> to the first assignment as its declaration, so
  the first insertion went through and the second was rejected.
\<close>

lemma adjacent_global_vars_reported:
  "map_sum id errors
     (run_pass (Node m Module [Node e Other
                  [Node g1 (GlobalVars [(a1\<lparr>mod_link := Some p\<rparr>, Some x)]) [],
                   Node g2 (GlobalVars [(a2, Some x)]) []]]) init_state)
     = Inr [Error (''Name used for global var '' @ [CHR 0x27] @ x @ [CHR 0x27]
                     @ '' already declared at '' @ p @ '', line '' @ string_of_int (line a1))] \<and>
   map_sum id (\<lambda>s. map tab (store s))
     (run_pass (Node m Module [Node e Other
                  [Node g1 (GlobalVars [(a1\<lparr>mod_link := Some p\<rparr>, Some x)]) [],
                   Node g2 (GlobalVars [(a2, Some x)]) []]]) init_state)
     = Inr [[], [(x, \<lparr>decl = Some (a1\<lparr>mod_link := Some p\<rparr>), defn = []\<rparr>)]] \<and>
   map_sum id errors
     (run_pass (Node m Module [Node e Other
                  [Node g1 (GlobalVars [(a1\<lparr>mod_link := Some p\<rparr>, Some x), (a2, Some x)]) []]])
        init_state)
     = Inr [Error (''Name used for global var '' @ [CHR 0x27] @ x @ [CHR 0x27]
                     @ '' already declared at '' @ p @ '', line '' @ string_of_int (line a1))] \<and>
   map_sum id (\<lambda>s. map tab (store s))
     (run_pass (Node m Module [Node e Other
                  [Node g1 (GlobalVars [(a1\<lparr>mod_link := Some p\<rparr>, Some x), (a2, Some x)]) []]])
        init_state)
     = Inr [[], [(x, \<lparr>decl = Some (a1\<lparr>mod_link := Some p\<rparr>), defn = []\<rparr>)]]"
  by (simp add: handler_defs stack_defs report_defs)

text \<open>
  C8 (evaluation at the input on which the claim fails). The claim: two global variables
  named \<open>x\<close> in the same module body yield exactly one diagnostic that names \<open>x\<close>, the label
  \<open>global var\<close> and the module path and line of the first. For two adjacent statements, at
  lines 3 and 14 of \<open>m.jac\<close>, the run records exactly the message ending in
  \<open>m.jac, line 3\<close>. With an enum declaration between the two statements the run records
  nothing: the scope pushed by \<open>enter_enum\<close> is never popped, so the second \<open>x\<close> is
  inserted into the table of the enum (address 2) while the first sits in the table of the
  module (address 1).
\<close>

theorem global_var_duplicate_missed_after_enum:
  "map_sum id errors
     (run_pass (Node \<lparr>nid = 0, line = 1, mod_link = Some ''m.jac''\<rparr> Module
        [Node \<lparr>nid = 1, line = 1, mod_link = Some ''m.jac''\<rparr> Other
           [Node \<lparr>nid = 2, line = 3, mod_link = Some ''m.jac''\<rparr>
              (GlobalVars [(\<lparr>nid = 3, line = 3, mod_link = Some ''m.jac''\<rparr>, Some ''x'')]) [],
            Node \<lparr>nid = 6, line = 14, mod_link = Some ''m.jac''\<rparr>
              (GlobalVars [(\<lparr>nid = 7, line = 14, mod_link = Some ''m.jac''\<rparr>, Some ''x'')]) []]])
        init_state)
     = Inr [Error (''Name used for global var '' @ [CHR 0x27] @ ''x'' @ [CHR 0x27]
                     @ '' already declared at m.jac, line 3'')] \<and>
   map_sum id errors
     (run_pass (Node \<lparr>nid = 0, line = 1, mod_link = Some ''m.jac''\<rparr> Module
        [Node \<lparr>nid = 1, line = 1, mod_link = Some ''m.jac''\<rparr> Other
           [Node \<lparr>nid = 2, line = 3, mod_link = Some ''m.jac''\<rparr>
              (GlobalVars [(\<lparr>nid = 3, line = 3, mod_link = Some ''m.jac''\<rparr>, Some ''x'')]) [],
            Node \<lparr>nid = 4, line = 7, mod_link = Some ''m.jac''\<rparr> (Enum ''E'')
              [Node \<lparr>nid = 5, line = 7, mod_link = Some ''m.jac''\<rparr> Other []],
            Node \<lparr>nid = 6, line = 14, mod_link = Some ''m.jac''\<rparr>
              (GlobalVars [(\<lparr>nid = 7, line = 14, mod_link = Some ''m.jac''\<rparr>, Some ''x'')]) []]])
        init_state)
     = Inr [] \<and>
   map_sum id (keys_at 1)
     (run_pass (Node \<lparr>nid = 0, line = 1, mod_link = Some ''m.jac''\<rparr> Module
        [Node \<lparr>nid = 1, line = 1, mod_link = Some ''m.jac''\<rparr> Other
           [Node \<lparr>nid = 2, line = 3, mod_link = Some ''m.jac''\<rparr>
              (GlobalVars [(\<lparr>nid = 3, line = 3, mod_link = Some ''m.jac''\<rparr>, Some ''x'')]) [],
            Node \<lparr>nid = 4, line = 7, mod_link = Some ''m.jac''\<rparr> (Enum ''E'')
              [Node \<lparr>nid = 5, line = 7, mod_link = Some ''m.jac''\<rparr> Other []],
            Node \<lparr>nid = 6, line = 14, mod_link = Some ''m.jac''\<rparr>
              (GlobalVars [(\<lparr>nid = 7, line = 14, mod_link = Some ''m.jac''\<rparr>, Some ''x'')]) []]])
        init_state)
     = Inr [''x'', ''E''] \<and>
   map_sum id (keys_at 2)
     (run_pass (Node \<lparr>nid = 0, line = 1, mod_link = Some ''m.jac''\<rparr> Module
        [Node \<lparr>nid = 1, line = 1, mod_link = Some ''m.jac''\<rparr> Other
           [Node \<lparr>nid = 2, line = 3, mod_link = Some ''m.jac''\<rparr>
              (GlobalVars [(\<lparr>nid = 3, line = 3, mod_link = Some ''m.jac''\<rparr>, Some ''x'')]) [],
            Node \<lparr>nid = 4, line = 7, mod_link = Some ''m.jac''\<rparr> (Enum ''E'')
              [Node \<lparr>nid = 5, line = 7, mod_link = Some ''m.jac''\<rparr> Other []],
            Node \<lparr>nid = 6, line = 14, mod_link = Some ''m.jac''\<rparr>
              (GlobalVars [(\<lparr>nid = 7, line = 14, mod_link = Some ''m.jac''\<rparr>, Some ''x'')]) []]])
        init_state)
     = Inr [''x'']"
proof -
  have line_3: "string_of_int 3 = ''3''"
    by code_simp
  show ?thesis
    by (simp add: handler_defs enter_enum_def keys_at_def stack_defs report_defs line_3)
qed

text \<open>
  C5. An ability \<open>n\<close> declared in the body of the architype \<open>T\<close> and defined out of body with
  target \<open>T\<close>: the run records no diagnostic. The key \<open>T.n\<close> is inserted twice, once as a
  declaration (node \<open>ab\<close>) into the scope opened by the architype and once as a definition
  (node \<open>d\<close>) into the scope of the module.
\<close>

theorem declared_then_defined_out_of_body:
  "map_sum id errors
     (run_pass (Node m Module [Node e Other
                  [Node t (Architype T)
                     [Node b Other [Node ab (Ability (Some (ParentArchitype T)) n) []]],
                   Node d (AbilityDef (Some [ArchRef T]) n) []]]) init_state)
     = Inr [] \<and>
   map_sum id (\<lambda>s. map tab (store s))
     (run_pass (Node m Module [Node e Other
                  [Node t (Architype T)
                     [Node b Other [Node ab (Ability (Some (ParentArchitype T)) n) []]],
                   Node d (AbilityDef (Some [ArchRef T]) n) []]]) init_state)
     = Inr [[],
            [(T, \<lparr>decl = Some t, defn = []\<rparr>),
             (T @ ''.'' @ n, \<lparr>decl = None, defn = [d]\<rparr>)],
            [(T @ ''.'' @ n, \<lparr>decl = Some ab, defn = []\<rparr>)],
            [],
            []]"
  by (simp add: handler_defs stack_defs report_defs)

subsection \<open>The absorption loop\<close>

lemma absorb_item_step:
  assumes "cur_sym_tab s = st @ [a]" and "absorbed_occurrence v = Some (h, n)"
  shows "absorb_item (k, v) s =
           Inr (case map_of (tab (store s ! a)) k of
                  None \<Rightarrow> s\<lparr>store := (store s)[a := (store s ! a)
                              \<lparr>tab := tab (store s ! a) @ [(k, new_symbol h n)]\<rparr>]\<rparr>
                | Some r \<Rightarrow>
                    (case occupant r of
                       None \<Rightarrow> s
                     | Some c \<Rightarrow> already_declared_err k ''include item'' c (Some [n]) s))"
proof (cases "map_of (tab (store s ! a)) k")
  case None
  show ?thesis
    using assms(2) None
    by (auto simp add: absorb_item_def absorbed_occurrence_def cur_scope_def assms(1) bind_r_Inr
        scope_insert_absent [OF assms(1) None] split: option.splits if_splits)
next
  case (Some r)
  show ?thesis
    using assms(2) Some
    by (auto simp add: absorb_item_def absorbed_occurrence_def cur_scope_def assms(1) bind_r_Inr
        scope_insert_present [OF assms(1) Some] split: option.splits if_splits)
qed

lemma absorb_item_raises:
  "absorb_item (k, v) s = Inl IndexError \<longleftrightarrow> cur_sym_tab s = [] \<or> absorbed_occurrence v = None"
proof (cases "cur_sym_tab s = []")
  case True
  then show ?thesis
    by (simp add: absorb_item_def cur_scope_def bind_r_Inl)
next
  case False
  then obtain st a where st: "cur_sym_tab s = st @ [a]"
    by (metis append_butlast_last_id)
  show ?thesis
  proof (cases "absorbed_occurrence v")
    case None
    then show ?thesis
      using False
      by (auto simp add: absorb_item_def absorbed_occurrence_def cur_scope_def bind_r_Inr bind_r_Inl
          split: option.splits if_splits)
  next
    case (Some hn)
    then obtain h n where "absorbed_occurrence v = Some (h, n)"
      by (cases hn) simp
    then show ?thesis
      using False absorb_item_step [OF st, of v h n k] by simp
  qed
qed

lemma absorb_item_frame:
  assumes "absorb_item (k, v) s = Inr s'"
  shows "cur_sym_tab s' = cur_sym_tab s \<and> length (store s') = length (store s) \<and>
         node_sym_tab s' = node_sym_tab s"
proof -
  have ne: "cur_sym_tab s \<noteq> []" and ab: "absorbed_occurrence v \<noteq> None"
    using assms absorb_item_raises [of k v s] by auto
  obtain st a where st: "cur_sym_tab s = st @ [a]"
    using ne by (metis append_butlast_last_id)
  obtain h n where hn: "absorbed_occurrence v = Some (h, n)"
    using ab by (cases "absorbed_occurrence v") auto
  show ?thesis
    using assms absorb_item_step [OF st hn, of k]
      already_declared_err_frame [of k "''include item''" _ "Some [n]" s]
    by (auto split: option.splits)
qed

lemma absorb_item_effect:
  assumes st: "cur_sym_tab s = st @ [a]" and a: "a < length (store s)"
    and hn: "absorbed_occurrence v = Some (h, n)"
  shows "\<exists>s1. absorb_item (k, v) s = Inr s1 \<and>
           cur_sym_tab s1 = cur_sym_tab s \<and> length (store s1) = length (store s) \<and>
           node_sym_tab s1 = node_sym_tab s \<and>
           (\<forall>b. b \<noteq> a \<longrightarrow> store s1 ! b = store s ! b) \<and>
           (\<forall>k'. map_of (tab (store s1 ! a)) k' =
                   (case map_of (tab (store s ! a)) k' of
                      Some r \<Rightarrow> Some r
                    | None \<Rightarrow> if k' = k then Some (new_symbol h n) else None)) \<and>
           (\<exists>xs. errors s1 = errors s @ xs)"
proof (cases "map_of (tab (store s ! a)) k")
  case None
  then show ?thesis
    using a by (simp add: absorb_item_step [OF st hn] map_add_def split: option.split)
next
  case (Some r)
  show ?thesis
  proof (cases "occupant r")
    case None
    then show ?thesis
      using Some by (auto simp add: absorb_item_step [OF st hn] split: option.split)
  next
    case (Some c)
    then show ?thesis
      using \<open>map_of (tab (store s ! a)) k = Some r\<close>
        already_declared_err_frame [of k "''include item''" c "Some [n]" s]
        already_declared_err_errors [of k "''include item''" c "Some [n]" s]
      by (auto simp add: absorb_item_step [OF st hn] split: option.split)
  qed
qed

lemma absorb_loop_effect:
  assumes "cur_sym_tab s = st @ [a]" and "a < length (store s)"
    and "\<forall>(k, v) \<in> set kvs. absorbed_occurrence v \<noteq> None"
  shows "\<exists>s'. absorb_loop kvs s = Inr s' \<and>
           cur_sym_tab s' = cur_sym_tab s \<and> length (store s') = length (store s) \<and>
           node_sym_tab s' = node_sym_tab s \<and>
           (\<forall>b. b \<noteq> a \<longrightarrow> store s' ! b = store s ! b) \<and>
           (\<forall>k. map_of (tab (store s' ! a)) k =
                  (case map_of (tab (store s ! a)) k of
                     Some r \<Rightarrow> Some r
                   | None \<Rightarrow>
                       (case map_of kvs k of
                          None \<Rightarrow> None
                        | Some v \<Rightarrow> map_option (\<lambda>(h, n). new_symbol h n) (absorbed_occurrence v)))) \<and>
           (\<exists>xs. errors s' = errors s @ xs)"
  using assms
proof (induction kvs arbitrary: s)
  case Nil
  then show ?case by (simp split: option.split)
next
  case (Cons kv rest)
  obtain k v where kv: "kv = (k, v)"
    by (cases kv)
  obtain h n where hn: "absorbed_occurrence v = Some (h, n)"
    using Cons.prems(3) kv by (cases "absorbed_occurrence v") auto
  obtain s1 where s1: "absorb_item (k, v) s = Inr s1"
    "cur_sym_tab s1 = cur_sym_tab s" "length (store s1) = length (store s)"
    "node_sym_tab s1 = node_sym_tab s"
    "\<forall>b. b \<noteq> a \<longrightarrow> store s1 ! b = store s ! b"
    "\<forall>k'. map_of (tab (store s1 ! a)) k' =
            (case map_of (tab (store s ! a)) k' of
               Some r \<Rightarrow> Some r
             | None \<Rightarrow> if k' = k then Some (new_symbol h n) else None)"
    "\<exists>xs. errors s1 = errors s @ xs"
    using absorb_item_effect [OF Cons.prems(1,2) hn, of k] by blast
  have "\<exists>s'. absorb_loop rest s1 = Inr s' \<and>
           cur_sym_tab s' = cur_sym_tab s1 \<and> length (store s') = length (store s1) \<and>
           node_sym_tab s' = node_sym_tab s1 \<and>
           (\<forall>b. b \<noteq> a \<longrightarrow> store s' ! b = store s1 ! b) \<and>
           (\<forall>k. map_of (tab (store s' ! a)) k =
                  (case map_of (tab (store s1 ! a)) k of
                     Some r \<Rightarrow> Some r
                   | None \<Rightarrow>
                       (case map_of rest k of
                          None \<Rightarrow> None
                        | Some v \<Rightarrow> map_option (\<lambda>(h, n). new_symbol h n) (absorbed_occurrence v)))) \<and>
           (\<exists>xs. errors s' = errors s1 @ xs)"
    using Cons.prems s1(2,3) by (intro Cons.IH) auto
  then obtain s' where s': "absorb_loop rest s1 = Inr s'"
    "cur_sym_tab s' = cur_sym_tab s1" "length (store s') = length (store s1)"
    "node_sym_tab s' = node_sym_tab s1"
    "\<forall>b. b \<noteq> a \<longrightarrow> store s' ! b = store s1 ! b"
    "\<forall>k. map_of (tab (store s' ! a)) k =
           (case map_of (tab (store s1 ! a)) k of
              Some r \<Rightarrow> Some r
            | None \<Rightarrow>
                (case map_of rest k of
                   None \<Rightarrow> None
                 | Some v \<Rightarrow> map_option (\<lambda>(h, n). new_symbol h n) (absorbed_occurrence v)))"
    "\<exists>xs. errors s' = errors s1 @ xs"
    by blast
  have run: "absorb_loop (kv # rest) s = Inr s'"
    by (simp add: kv s1(1) s'(1) bind_r_Inr)
  have tabs: "\<forall>k'. map_of (tab (store s' ! a)) k' =
                  (case map_of (tab (store s ! a)) k' of
                     Some r \<Rightarrow> Some r
                   | None \<Rightarrow>
                       (case map_of (kv # rest) k' of
                          None \<Rightarrow> None
                        | Some v \<Rightarrow> map_option (\<lambda>(h, n). new_symbol h n) (absorbed_occurrence v)))"
    using s'(6) s1(6) by (simp add: kv hn split: option.split)
  have errs: "\<exists>xs. errors s' = errors s @ xs"
    using s'(7) s1(7) by auto
  show ?case
    using run tabs errs s'(2,3,4,5) s1(2,3,4,5) by simp
qed

lemma already_declared_err_two_sites:
  assumes "mod_link c = Some p" and "mod_link n = Some q"
  shows "already_declared_err name typ c (Some [n]) s =
           s\<lparr>errors := errors s @
               [Error (''Name used for '' @ typ @ '' '' @ [CHR 0x27] @ name @ [CHR 0x27]
                        @ '' already declared at '' @ p @ '', line '' @ string_of_int (line c)
                        @ '', '' @ q @ '', line '' @ string_of_int (line n))]\<rparr>"
  using assms by (simp add: already_declared_err_def mod_path_of_def error_def)

lemma absorb_loop_reports:
  assumes "cur_sym_tab s = st @ [a]" and "a < length (store s)"
    and "\<forall>(k, v) \<in> set kvs. absorbed_occurrence v \<noteq> None"
    and "(k, v) \<in> set kvs" and "map_of (tab (store s ! a)) k = Some r"
    and "occupant r = Some c" and "absorbed_occurrence v = Some (h, n)"
    and "mod_link c = Some p" and "mod_link n = Some q"
    and "absorb_loop kvs s = Inr s'"
  shows "Error (''Name used for include item '' @ [CHR 0x27] @ k @ [CHR 0x27]
                  @ '' already declared at '' @ p @ '', line '' @ string_of_int (line c)
                  @ '', '' @ q @ '', line '' @ string_of_int (line n)) \<in> set (errors s')"
  using assms(1,2,3,4,5,10)
proof (induction kvs arbitrary: s)
  case Nil
  then show ?case by simp
next
  case (Cons kv rest)
  define msg where "msg = ''Name used for include item '' @ [CHR 0x27] @ k @ [CHR 0x27]
                  @ '' already declared at '' @ p @ '', line '' @ string_of_int (line c)
                  @ '', '' @ q @ '', line '' @ string_of_int (line n)"
  obtain k0 v0 where kv: "kv = (k0, v0)"
    by (cases kv)
  obtain h0 n0 where hn0: "absorbed_occurrence v0 = Some (h0, n0)"
    using Cons.prems(3) kv by (cases "absorbed_occurrence v0") auto
  obtain s1 where s1: "absorb_item (k0, v0) s = Inr s1"
    "cur_sym_tab s1 = cur_sym_tab s" "length (store s1) = length (store s)"
    "\<forall>k'. map_of (tab (store s1 ! a)) k' =
            (case map_of (tab (store s ! a)) k' of
               Some r \<Rightarrow> Some r
             | None \<Rightarrow> if k' = k0 then Some (new_symbol h0 n0) else None)"
    using absorb_item_effect [OF Cons.prems(1,2) hn0, of k0] by blast
  have rest: "absorb_loop rest s1 = Inr s'"
    using Cons.prems(6) by (simp add: kv s1(1) bind_r_Inr)
  have pre1: "cur_sym_tab s1 = st @ [a]" "a < length (store s1)"
    "\<forall>(k, v) \<in> set rest. absorbed_occurrence v \<noteq> None"
    "map_of (tab (store s1 ! a)) k = Some r"
    using Cons.prems s1(2,3,4) by auto
  show ?case
  proof (cases "(k, v) = kv")
    case True
    then have "k0 = k" "v0 = v"
      using kv by auto
    then have "h0 = h" "n0 = n"
      using hn0 assms(7) by auto
    have "absorb_item (k, v) s = Inr (already_declared_err k ''include item'' c (Some [n]) s)"
      using absorb_item_step [OF Cons.prems(1) assms(7), of k] Cons.prems(5) assms(6) by simp
    then have "s1 = already_declared_err k ''include item'' c (Some [n]) s"
      using s1(1) \<open>k0 = k\<close> \<open>v0 = v\<close> by simp
    then have "errors s1 = errors s @ [Error msg]"
      unfolding msg_def by (simp add: already_declared_err_two_sites [OF assms(8,9)])
    moreover obtain xs where "errors s' = errors s1 @ xs"
      using absorb_loop_effect [OF pre1(1,2,3)] rest by auto
    ultimately show ?thesis
      by (simp add: msg_def)
  next
    case False
    then have "(k, v) \<in> set rest"
      using Cons.prems(4) by simp
    then show ?thesis
      using Cons.IH [OF pre1(1,2,3) _ pre1(4) rest] by simp
  qed
qed

lemma absorb_loop_silent:
  assumes "cur_sym_tab s = st @ [a]" and "a < length (store s)"
    and "\<forall>(k, v) \<in> set kvs. absorbed_occurrence v \<noteq> None"
    and "distinct (map fst kvs)"
    and "\<forall>(k, v) \<in> set kvs. map_of (tab (store s ! a)) k = None"
    and "absorb_loop kvs s = Inr s'"
  shows "errors s' = errors s"
  using assms
proof (induction kvs arbitrary: s)
  case Nil
  then show ?case by simp
next
  case (Cons kv rest)
  obtain k0 v0 where kv: "kv = (k0, v0)"
    by (cases kv)
  obtain h0 n0 where hn0: "absorbed_occurrence v0 = Some (h0, n0)"
    using Cons.prems(3) kv by (cases "absorbed_occurrence v0") auto
  have absent: "map_of (tab (store s ! a)) k0 = None"
    using Cons.prems(5) kv by simp
  define s1 where "s1 = s\<lparr>store := (store s)[a := (store s ! a)
                              \<lparr>tab := tab (store s ! a) @ [(k0, new_symbol h0 n0)]\<rparr>]\<rparr>"
  have step: "absorb_item (k0, v0) s = Inr s1"
    using absorb_item_step [OF Cons.prems(1) hn0, of k0] absent by (simp add: s1_def)
  have rest: "absorb_loop rest s1 = Inr s'"
    using Cons.prems(6) by (simp add: kv step bind_r_Inr)
  have "\<forall>(k, v) \<in> set rest. k \<noteq> k0"
    using Cons.prems(4) kv by (auto simp add: rev_image_eqI)
  then have absent1: "\<forall>(k, v) \<in> set rest. map_of (tab (store s1 ! a)) k = None"
    using Cons.prems(2,5) by (auto simp add: s1_def map_add_def split: option.split)
  have "errors s' = errors s1"
    using Cons.prems(1,2,3,4) absent1 rest
    by (intro Cons.IH [of s1]) (auto simp add: s1_def)
  then show ?case
    by (simp add: s1_def)
qed

lemma absorb_loop_raises:
  assumes "cur_sym_tab s \<noteq> []"
  shows "absorb_loop kvs s = Inl IndexError \<longleftrightarrow> (\<exists>(k, v) \<in> set kvs. absorbed_occurrence v = None)"
  using assms
proof (induction kvs arbitrary: s)
  case Nil
  then show ?case by simp
next
  case (Cons kv rest)
  obtain k v where kv: "kv = (k, v)"
    by (cases kv)
  show ?case
  proof (cases "absorbed_occurrence v")
    case None
    then have "absorb_item (k, v) s = Inl IndexError"
      by (simp add: absorb_item_raises)
    then show ?thesis
      using None by (simp add: kv bind_r_Inl)
  next
    case (Some hn)
    then have "absorb_item (k, v) s \<noteq> Inl IndexError"
      using Cons.prems by (simp add: absorb_item_raises)
    then obtain s1 where s1: "absorb_item (k, v) s = Inr s1"
      by (cases "absorb_item (k, v) s") (auto intro: py_error.exhaust)
    have "cur_sym_tab s1 \<noteq> []"
      using absorb_item_frame [OF s1] Cons.prems by simp
    then show ?thesis
      using Cons.IH [of s1] Some by (simp add: kv s1 bind_r_Inr)
  qed
qed

lemma absorb_loop_stack:
  "absorb_loop kvs s = Inr s' \<Longrightarrow> cur_sym_tab s' = cur_sym_tab s"
proof (induction kvs arbitrary: s)
  case Nil
  then show ?case by simp
next
  case (Cons kv rest)
  obtain k v where kv: "kv = (k, v)"
    by (cases kv)
  obtain s1 where s1: "absorb_item (k, v) s = Inr s1"
    using Cons.prems by (cases "absorb_item (k, v) s") (simp_all add: kv bind_r_Inl)
  then show ?case
    using Cons.prems Cons.IH [of s1] absorb_item_frame [OF s1] by (simp add: kv bind_r_Inr)
qed

lemma absorbed_occurrence_None:
  "absorbed_occurrence v = None \<longleftrightarrow> decl v = None \<and> defn v = []"
  by (simp add: absorbed_occurrence_def split: option.split)

text \<open>
  C10. In the loop of \<open>exit_import\<close> the node argument of the insertion is \<open>v.decl\<close> if present
  and \<open>v.defn[-1]\<close> otherwise, with no check that \<open>v.defn\<close> has an element (the branch that
  builds the report has \<open>if len(v.defn)\<close>). So, with an active scope, one round raises
  \<open>IndexError\<close> exactly for a record without declaration and without definition, and the exit
  of a resolved absorbing import raises exactly when the root table of the sub-module holds
  such a record.
\<close>

theorem exit_import_absorb_index_error:
  assumes "is_absorb imp" and "sub_module_sym_tab imp s = Some sa" and "cur_sym_tab s \<noteq> []"
  shows "(exit_import node imp s = Inl IndexError \<longleftrightarrow>
            (\<exists>(k, v) \<in> set (tab (store s ! sa)). decl v = None \<and> defn v = [])) \<and>
         (\<forall>k v. absorb_item (k, v) s = Inl IndexError \<longleftrightarrow> decl v = None \<and> defn v = [])"
proof
  have unfold: "exit_import node imp s =
                  bind_r (absorb_loop (tab (store s ! sa)) s) (sync_node_to_scope node)"
    using assms(1,2) by (simp add: exit_import_def)
  show "exit_import node imp s = Inl IndexError \<longleftrightarrow>
          (\<exists>(k, v) \<in> set (tab (store s ! sa)). decl v = None \<and> defn v = [])"
  proof (cases "absorb_loop (tab (store s ! sa)) s")
    case (Inl e)
    then have "absorb_loop (tab (store s ! sa)) s = Inl IndexError"
      by (cases e) simp
    then show ?thesis
      using absorb_loop_raises [OF assms(3), of "tab (store s ! sa)"]
      by (simp add: unfold bind_r_Inl absorbed_occurrence_None)
  next
    case (Inr s1)
    then have "cur_sym_tab s1 \<noteq> []"
      using absorb_loop_stack [of "tab (store s ! sa)" s s1] assms(3) by simp
    then have "exit_import node imp s \<noteq> Inl IndexError"
      by (simp add: unfold Inr bind_r_Inr sync_node_to_scope_def cur_scope_def)
    then show ?thesis
      using absorb_loop_raises [OF assms(3), of "tab (store s ! sa)"] Inr
      by (simp add: absorbed_occurrence_None)
  qed
next
  show "\<forall>k v. absorb_item (k, v) s = Inl IndexError \<longleftrightarrow> decl v = None \<and> defn v = []"
    using assms(3) by (simp add: absorb_item_raises absorbed_occurrence_None)
qed

theorem exit_import_absorb_index_error_witness:
  "is_absorb \<lparr>items = None, is_absorb = True, sub_module = Some 9, path_str = ''lib''\<rparr> \<and>
   sub_module_sym_tab \<lparr>items = None, is_absorb = True, sub_module = Some 9, path_str = ''lib''\<rparr>
     \<lparr>cur_sym_tab = [0],
      store = [SymbolTable, \<lparr>tab = [(''ghost'', \<lparr>decl = None, defn = []\<rparr>)], parent = None\<rparr>],
      node_sym_tab = [9 \<mapsto> 1], errors = []\<rparr> = Some 1 \<and>
   exit_import \<lparr>nid = 4, line = 2, mod_link = None\<rparr>
     \<lparr>items = None, is_absorb = True, sub_module = Some 9, path_str = ''lib''\<rparr>
     \<lparr>cur_sym_tab = [0],
      store = [SymbolTable, \<lparr>tab = [(''ghost'', \<lparr>decl = None, defn = []\<rparr>)], parent = None\<rparr>],
      node_sym_tab = [9 \<mapsto> 1], errors = []\<rparr> = Inl IndexError"
  using exit_import_absorb_index_error
    [of "\<lparr>items = None, is_absorb = True, sub_module = Some 9, path_str = ''lib''\<rparr>"
        "\<lparr>cur_sym_tab = [0],
          store = [SymbolTable, \<lparr>tab = [(''ghost'', \<lparr>decl = None, defn = []\<rparr>)], parent = None\<rparr>],
          node_sym_tab = [9 \<mapsto> 1], errors = []\<rparr>"
        1 "\<lparr>nid = 4, line = 2, mod_link = None\<rparr>"]
  by (simp add: sub_module_sym_tab_def)

text \<open>
  C6. On the exit of an absorbing import whose sub-module carries the table at \<open>sa\<close>, entered
  with the active scope at \<open>a\<close>, every record of that table having an occurrence: the handler
  returns, the stack and every other table are what they were, and for every name the active
  scope keeps the record it had, or else, for a name of the sub-module table, gets a new record
  that holds the declaration of the source record as its declaration, or, without one, the
  last definition of the source record as its only definition. Every name of the sub-module
  table that the active scope already held is reported: the message cites the module path and
  line of the existing occupant and then those of the absorbed occurrence. When no name was
  held already no diagnostic is added.
\<close>

theorem exit_import_absorbs:
  assumes "is_absorb imp" and "sub_module_sym_tab imp s = Some sa"
    and "cur_sym_tab s = st @ [a]" and "a < length (store s)"
    and "\<forall>(k, v) \<in> set (tab (store s ! sa)). absorbed_occurrence v \<noteq> None"
  shows "\<exists>s'. exit_import node imp s = Inr s' \<and> cur_sym_tab s' = cur_sym_tab s \<and>
           (\<forall>b. b \<noteq> a \<longrightarrow> store s' ! b = store s ! b) \<and>
           (\<forall>k. map_of (tab (store s' ! a)) k =
                  (case map_of (tab (store s ! a)) k of
                     Some r \<Rightarrow> Some r
                   | None \<Rightarrow>
                       (case map_of (tab (store s ! sa)) k of
                          None \<Rightarrow> None
                        | Some v \<Rightarrow> map_option (\<lambda>(h, n). new_symbol h n) (absorbed_occurrence v)))) \<and>
           (\<forall>k v r c h n p q.
              (k, v) \<in> set (tab (store s ! sa)) \<longrightarrow> map_of (tab (store s ! a)) k = Some r \<longrightarrow>
              occupant r = Some c \<longrightarrow> absorbed_occurrence v = Some (h, n) \<longrightarrow>
              mod_link c = Some p \<longrightarrow> mod_link n = Some q \<longrightarrow>
              Error (''Name used for include item '' @ [CHR 0x27] @ k @ [CHR 0x27]
                       @ '' already declared at '' @ p @ '', line '' @ string_of_int (line c)
                       @ '', '' @ q @ '', line '' @ string_of_int (line n)) \<in> set (errors s')) \<and>
           (distinct (map fst (tab (store s ! sa))) \<longrightarrow>
            (\<forall>(k, v) \<in> set (tab (store s ! sa)). map_of (tab (store s ! a)) k = None) \<longrightarrow>
            errors s' = errors s)"
proof -
  define kvs where "kvs = tab (store s ! sa)"
  have occ: "\<forall>(k, v) \<in> set kvs. absorbed_occurrence v \<noteq> None"
    using assms(5) by (simp add: kvs_def)
  obtain s1 where s1: "absorb_loop kvs s = Inr s1"
    "cur_sym_tab s1 = cur_sym_tab s"
    "\<forall>b. b \<noteq> a \<longrightarrow> store s1 ! b = store s ! b"
    "\<forall>k. map_of (tab (store s1 ! a)) k =
           (case map_of (tab (store s ! a)) k of
              Some r \<Rightarrow> Some r
            | None \<Rightarrow>
                (case map_of kvs k of
                   None \<Rightarrow> None
                 | Some v \<Rightarrow> map_option (\<lambda>(h, n). new_symbol h n) (absorbed_occurrence v)))"
    using absorb_loop_effect [OF assms(3,4) occ] by blast
  define s' where "s' = s1\<lparr>node_sym_tab := (node_sym_tab s1)(nid node \<mapsto> a)\<rparr>"
  have run: "exit_import node imp s = Inr s'"
    using assms(1,2,3) s1(1,2)
    by (simp add: exit_import_def kvs_def [symmetric] bind_r_Inr sync_node_to_scope_def
        cur_scope_def s'_def)
  have proj: "cur_sym_tab s' = cur_sym_tab s1" "store s' = store s1" "errors s' = errors s1"
    by (simp_all add: s'_def)
  have reports: "\<forall>k v r c h n p q.
              (k, v) \<in> set kvs \<longrightarrow> map_of (tab (store s ! a)) k = Some r \<longrightarrow>
              occupant r = Some c \<longrightarrow> absorbed_occurrence v = Some (h, n) \<longrightarrow>
              mod_link c = Some p \<longrightarrow> mod_link n = Some q \<longrightarrow>
              Error (''Name used for include item '' @ [CHR 0x27] @ k @ [CHR 0x27]
                       @ '' already declared at '' @ p @ '', line '' @ string_of_int (line c)
                       @ '', '' @ q @ '', line '' @ string_of_int (line n)) \<in> set (errors s1)"
    using absorb_loop_reports [OF assms(3,4) occ _ _ _ _ _ _ s1(1)] by blast
  have silent: "distinct (map fst kvs) \<longrightarrow>
            (\<forall>(k, v) \<in> set kvs. map_of (tab (store s ! a)) k = None) \<longrightarrow> errors s1 = errors s"
    using absorb_loop_silent [OF assms(3,4) occ _ _ s1(1)] by blast
  show ?thesis
    using run proj s1(2,3,4) reports silent unfolding kvs_def by auto
qed

theorem exit_import_absorbs_witness:
  "is_absorb \<lparr>items = None, is_absorb = True, sub_module = Some 9, path_str = ''a''\<rparr> \<and>
   sub_module_sym_tab \<lparr>items = None, is_absorb = True, sub_module = Some 9, path_str = ''a''\<rparr>
     \<lparr>cur_sym_tab = [0],
         store =
           [\<lparr>tab = [(''shared'', \<lparr>decl = Some \<lparr>nid = 2, line = 3, mod_link = Some ''b.jac''\<rparr>,
                                   defn = []\<rparr>)],
             parent = None\<rparr>,
            \<lparr>tab = [(''shared'', \<lparr>decl = Some \<lparr>nid = 11, line = 7, mod_link = Some ''a.jac''\<rparr>,
                                   defn = []\<rparr>),
                    (''helper'', \<lparr>decl = None,
                                   defn = [\<lparr>nid = 12, line = 8, mod_link = Some ''a.jac''\<rparr>,
                                           \<lparr>nid = 13, line = 9, mod_link = Some ''a.jac''\<rparr>]\<rparr>)],
             parent = None\<rparr>],
         node_sym_tab = [9 \<mapsto> 1], errors = []\<rparr> = Some 1 \<and>
   cur_sym_tab
     \<lparr>cur_sym_tab = [0],
         store =
           [\<lparr>tab = [(''shared'', \<lparr>decl = Some \<lparr>nid = 2, line = 3, mod_link = Some ''b.jac''\<rparr>,
                                   defn = []\<rparr>)],
             parent = None\<rparr>,
            \<lparr>tab = [(''shared'', \<lparr>decl = Some \<lparr>nid = 11, line = 7, mod_link = Some ''a.jac''\<rparr>,
                                   defn = []\<rparr>),
                    (''helper'', \<lparr>decl = None,
                                   defn = [\<lparr>nid = 12, line = 8, mod_link = Some ''a.jac''\<rparr>,
                                           \<lparr>nid = 13, line = 9, mod_link = Some ''a.jac''\<rparr>]\<rparr>)],
             parent = None\<rparr>],
         node_sym_tab = [9 \<mapsto> 1], errors = []\<rparr> = [] @ [0] \<and>
   0 < length (store
     \<lparr>cur_sym_tab = [0],
         store =
           [\<lparr>tab = [(''shared'', \<lparr>decl = Some \<lparr>nid = 2, line = 3, mod_link = Some ''b.jac''\<rparr>,
                                   defn = []\<rparr>)],
             parent = None\<rparr>,
            \<lparr>tab = [(''shared'', \<lparr>decl = Some \<lparr>nid = 11, line = 7, mod_link = Some ''a.jac''\<rparr>,
                                   defn = []\<rparr>),
                    (''helper'', \<lparr>decl = None,
                                   defn = [\<lparr>nid = 12, line = 8, mod_link = Some ''a.jac''\<rparr>,
                                           \<lparr>nid = 13, line = 9, mod_link = Some ''a.jac''\<rparr>]\<rparr>)],
             parent = None\<rparr>],
         node_sym_tab = [9 \<mapsto> 1], errors = []\<rparr>) \<and>
   map (absorbed_occurrence \<circ> snd) (tab (store
     \<lparr>cur_sym_tab = [0],
         store =
           [\<lparr>tab = [(''shared'', \<lparr>decl = Some \<lparr>nid = 2, line = 3, mod_link = Some ''b.jac''\<rparr>,
                                   defn = []\<rparr>)],
             parent = None\<rparr>,
            \<lparr>tab = [(''shared'', \<lparr>decl = Some \<lparr>nid = 11, line = 7, mod_link = Some ''a.jac''\<rparr>,
                                   defn = []\<rparr>),
                    (''helper'', \<lparr>decl = None,
                                   defn = [\<lparr>nid = 12, line = 8, mod_link = Some ''a.jac''\<rparr>,
                                           \<lparr>nid = 13, line = 9, mod_link = Some ''a.jac''\<rparr>]\<rparr>)],
             parent = None\<rparr>],
         node_sym_tab = [9 \<mapsto> 1], errors = []\<rparr> ! 1)) =
     [Some (DECL, \<lparr>nid = 11, line = 7, mod_link = Some ''a.jac''\<rparr>),
      Some (DEFN, \<lparr>nid = 13, line = 9, mod_link = Some ''a.jac''\<rparr>)] \<and>
   (\<exists>s'. exit_import \<lparr>nid = 4, line = 2, mod_link = Some ''b.jac''\<rparr> \<lparr>items = None, is_absorb = True, sub_module = Some 9, path_str = ''a''\<rparr>
            \<lparr>cur_sym_tab = [0],
         store =
           [\<lparr>tab = [(''shared'', \<lparr>decl = Some \<lparr>nid = 2, line = 3, mod_link = Some ''b.jac''\<rparr>,
                                   defn = []\<rparr>)],
             parent = None\<rparr>,
            \<lparr>tab = [(''shared'', \<lparr>decl = Some \<lparr>nid = 11, line = 7, mod_link = Some ''a.jac''\<rparr>,
                                   defn = []\<rparr>),
                    (''helper'', \<lparr>decl = None,
                                   defn = [\<lparr>nid = 12, line = 8, mod_link = Some ''a.jac''\<rparr>,
                                           \<lparr>nid = 13, line = 9, mod_link = Some ''a.jac''\<rparr>]\<rparr>)],
             parent = None\<rparr>],
         node_sym_tab = [9 \<mapsto> 1], errors = []\<rparr> = Inr s' \<and>
         tab (store s' ! 0) =
           [(''shared'', \<lparr>decl = Some \<lparr>nid = 2, line = 3, mod_link = Some ''b.jac''\<rparr>, defn = []\<rparr>),
            (''helper'', \<lparr>decl = None, defn = [\<lparr>nid = 13, line = 9, mod_link = Some ''a.jac''\<rparr>]\<rparr>)] \<and>
         errors s' =
           [Error (''Name used for include item '' @ [CHR 0x27] @ ''shared'' @ [CHR 0x27]
                     @ '' already declared at b.jac, line 3, a.jac, line 7'')])"
proof -
  have lines: "string_of_int 3 = ''3''" "string_of_int 7 = ''7''"
    by code_simp+
  show ?thesis
    using exit_import_absorbs
      [of "\<lparr>items = None, is_absorb = True, sub_module = Some 9, path_str = ''a''\<rparr>"
          "\<lparr>cur_sym_tab = [0],
         store =
           [\<lparr>tab = [(''shared'', \<lparr>decl = Some \<lparr>nid = 2, line = 3, mod_link = Some ''b.jac''\<rparr>,
                                   defn = []\<rparr>)],
             parent = None\<rparr>,
            \<lparr>tab = [(''shared'', \<lparr>decl = Some \<lparr>nid = 11, line = 7, mod_link = Some ''a.jac''\<rparr>,
                                   defn = []\<rparr>),
                    (''helper'', \<lparr>decl = None,
                                   defn = [\<lparr>nid = 12, line = 8, mod_link = Some ''a.jac''\<rparr>,
                                           \<lparr>nid = 13, line = 9, mod_link = Some ''a.jac''\<rparr>]\<rparr>)],
             parent = None\<rparr>],
         node_sym_tab = [9 \<mapsto> 1], errors = []\<rparr>"
          1 "[]" 0 "\<lparr>nid = 4, line = 2, mod_link = Some ''b.jac''\<rparr>"]
    by (simp add: exit_import_def sub_module_sym_tab_def absorb_item_def absorbed_occurrence_def
        stack_defs report_defs lines)
qed

subsection \<open>Depth of the scope stack along a traversal\<close>

lemma bind_r_eq_Inr: "bind_r r f = Inr y \<longleftrightarrow> (\<exists>x. r = Inr x \<and> f x = Inr y)"
  by (cases r) (simp_all add: bind_r_def)

lemma sync_stack: "sync_node_to_scope node s = Inr s' \<Longrightarrow> cur_sym_tab s' = cur_sym_tab s"
  by (auto simp add: sync_node_to_scope_def cur_scope_def bind_r_def split: if_splits)

lemma push_stack:
  "push_scope fresh s = Inr s' \<Longrightarrow> length (cur_sym_tab s') = Suc (length (cur_sym_tab s))"
  by (auto simp add: push_scope_def split: if_splits)

lemma pop_stack:
  "pop_scope s = Inr s' \<Longrightarrow> Suc (length (cur_sym_tab s')) = length (cur_sym_tab s)"
  by (auto simp add: pop_scope_def split: if_splits)

lemma insert_or_report_stack:
  "insert_or_report name hit node typ s = Inr s' \<Longrightarrow> cur_sym_tab s' = cur_sym_tab s"
  using already_declared_err_frame [of name "typ" _ None]
  by (auto simp add: insert_or_report_def scope_insert_def cur_scope_def bind_r_def
      split: if_splits prod.splits option.splits)

lemma global_vars_loop_stack:
  "global_vars_loop assignments s = Inr s' \<Longrightarrow> cur_sym_tab s' = cur_sym_tab s"
proof (induction assignments s rule: global_vars_loop.induct)
  case (1 s)
  then show ?case by simp
next
  case (2 i target rest s)
  then show ?case
    by (cases target) (auto simp add: ice_def bind_r_eq_Inr dest!: insert_or_report_stack)
qed

lemma import_items_loop_stack:
  "import_items_loop node its s = Inr s' \<Longrightarrow> cur_sym_tab s' = cur_sym_tab s"
  by (induction its arbitrary: s) (auto simp add: bind_r_eq_Inr dest!: insert_or_report_stack)

lemma push_sync_stack:
  "bind_r (push_scope fresh s) (sync_node_to_scope node) = Inr s' \<Longrightarrow>
   length (cur_sym_tab s') = Suc (length (cur_sym_tab s))"
  by (auto simp add: bind_r_eq_Inr dest!: push_stack sync_stack)

lemma enter_node_stack:
  assumes "enter_node node kind s = Inr s'"
  shows "length (cur_sym_tab s') = length (cur_sym_tab s) + pushes kind"
proof (cases kind)
  case Module
  then show ?thesis
    using assms by (auto simp add: enter_module_def dest!: push_sync_stack)
next
  case (GlobalVars x2)
  then show ?thesis
    using assms
    by (auto simp add: enter_global_vars_def bind_r_eq_Inr
        dest!: global_vars_loop_stack sync_stack)
next
  case (Test x3)
  then show ?thesis
    using assms
    by (cases x3)
      (auto simp add: enter_test_def bind_r_eq_Inr
        dest!: push_stack sync_stack insert_or_report_stack)
next
  case ModuleCode
  then show ?thesis
    using assms by (auto simp add: enter_module_code_def dest!: push_sync_stack)
next
  case (Import x5)
  then show ?thesis
    using assms
    by (cases "items x5")
      (auto simp add: enter_import_def bind_r_eq_Inr dest!: import_items_loop_stack sync_stack)
next
  case (Architype x6)
  then show ?thesis
    using assms
    by (auto simp add: enter_architype_def bind_r_eq_Inr
        dest!: push_stack sync_stack insert_or_report_stack)
next
  case ArchDef
  then show ?thesis
    using assms by (auto simp add: enter_arch_def_def dest!: sync_stack)
next
  case (Ability x81 x82)
  then show ?thesis
    using assms
    by (auto simp add: enter_ability_def bind_r_eq_Inr
        dest!: push_stack sync_stack insert_or_report_stack)
next
  case (AbilityDef x91 x92)
  have "ability_def_name x91 x92 s = Inr (nm, s0) \<Longrightarrow> cur_sym_tab s0 = cur_sym_tab s" for nm s0
    by (auto simp add: ability_def_name_def error_def split: option.splits if_splits name_ref.splits)
  then show ?thesis
    using assms AbilityDef
    by (auto simp add: enter_ability_def_def bind_r_eq_Inr
        dest!: push_stack sync_stack insert_or_report_stack)
next
  case (Enum x10)
  then show ?thesis
    using assms
    by (auto simp add: enter_enum_def bind_r_eq_Inr
        dest!: push_stack sync_stack insert_or_report_stack)
next
  case EnumDef
  then show ?thesis
    using assms by (auto simp add: enter_enum_def_def dest!: sync_stack)
next
  case Other
  then show ?thesis
    using assms by (auto simp add: enter_other_def dest!: sync_stack)
qed

lemma exit_node_stack:
  assumes "exit_node node kind s = Inr s'"
  shows "length (cur_sym_tab s') + pops kind = length (cur_sym_tab s)"
proof (cases kind)
  case (Import imp)
  have "cur_sym_tab s' = cur_sym_tab s"
    using assms Import
    by (auto simp add: exit_import_def bind_r_eq_Inr error_def
        split: if_splits option.splits dest!: sync_stack absorb_loop_stack)
  then show ?thesis
    using Import by simp
qed (use assms in \<open>auto simp add: exit_module_def exit_test_def exit_module_code_def
      exit_architype_def exit_ability_def exit_ability_def_def dest!: pop_stack\<close>)

lemma pushes_pops: "pushes kind = pops kind + (case kind of Enum name \<Rightarrow> 1 | _ \<Rightarrow> 0)"
  by (cases kind) simp_all

lemma traverse_stack_depth:
  "(\<forall>s'. traverse t s = Inr s' \<longrightarrow>
      length (cur_sym_tab s') = length (cur_sym_tab s) + enum_count t)"
  "(\<forall>s'. traverse_kids ts s = Inr s' \<longrightarrow>
      length (cur_sym_tab s') = length (cur_sym_tab s) + enum_count_kids ts)"
proof (induction t s and ts s rule: traverse_traverse_kids.induct)
  case (1 node kind kid s)
  show ?case
  proof (intro allI impI)
    fix s'
    assume "traverse (Node node kind kid) s = Inr s'"
    then obtain s1 s2 where steps: "enter_node node kind s = Inr s1"
      "traverse_kids kid s1 = Inr s2" "exit_node node kind s2 = Inr s'"
      by (auto simp add: bind_r_eq_Inr)
    have "length (cur_sym_tab s1) = length (cur_sym_tab s) + pushes kind"
      using steps(1) by (rule enter_node_stack)
    moreover have "length (cur_sym_tab s2) = length (cur_sym_tab s1) + enum_count_kids kid"
      using "1.IH" steps(2) by blast
    moreover have "length (cur_sym_tab s') + pops kind = length (cur_sym_tab s2)"
      using steps(3) by (rule exit_node_stack)
    ultimately show "length (cur_sym_tab s') = length (cur_sym_tab s) + enum_count (Node node kind kid)"
      using pushes_pops [of kind] by simp
  qed
next
  case (2 s)
  show ?case by simp
next
  case (3 k rest s)
  show ?case
  proof (intro allI impI)
    fix s'
    assume "traverse_kids (k # rest) s = Inr s'"
    then obtain s1 where steps: "traverse k s = Inr s1" "traverse_kids rest s1 = Inr s'"
      by (auto simp add: bind_r_eq_Inr)
    show "length (cur_sym_tab s') = length (cur_sym_tab s) + enum_count_kids (k # rest)"
      using "3.IH"(1) "3.IH"(2) steps by fastforce
  qed
qed

text \<open>
  Whenever a run of the pass returns, the stack holds its initial entry and one more entry
  for every \<open>Enum\<close> node of the tree: the pushes of all other kinds are popped at their
  exits, the push of \<open>enter_enum\<close> never is.
\<close>

lemma run_pass_final_depth:
  assumes "run_pass ir s = Inr s'"
  shows "length (cur_sym_tab s') = 1 + enum_count ir"
  using assms traverse_stack_depth(1) [of ir "before_pass s"]
  by (simp add: run_pass_def before_pass_def)

end
